theory Spec2Isabelle
  imports Main "HOL-Library.Word"
begin

unbundle bit_operations_syntax

section \<open>IEEE-754 binary32 values and their ordered comparisons\<close>

text \<open>
  The kernel \<open>volk_32f_s32f_x2_clamp_32f\<close> only compares and copies \<open>float\<close> values; it
  performs no arithmetic and therefore no rounding.  A \<open>float\<close> is modelled by its 32-bit
  pattern: bit 31 is the sign, bits 30..23 the biased exponent, bits 22..0 the fraction.
  A pattern is a NaN when the exponent is all ones and the fraction is not zero.

  A finite pattern with sign \<open>s\<close>, exponent \<open>e\<close> and fraction \<open>f\<close> denotes
  \<open>(-1)^s * 2^(e - 127) * (1 + f / 2^23)\<close> when \<open>e > 0\<close> (normal) and
  \<open>(-1)^s * 2^(-126) * (f / 2^23)\<close> when \<open>e = 0\<close> (zero and subnormal).  Every such value is a
  whole multiple of \<open>2^(-149)\<close>; \<open>float_scaled\<close> is that multiple, so the order of the values is
  the order of these integers, and \<open>+0\<close> and \<open>-0\<close> are equal.  For the infinities
  (\<open>e = 255\<close>, \<open>f = 0\<close>) the same formula gives \<open>2^128\<close> with the sign, beyond every finite
  value.  The C operators \<open><\<close> and \<open>>\<close> are false
  as soon as one operand is a NaN.  Copying a \<open>float\<close> copies its pattern.
\<close>

type_synonym float = "32 word"

definition sign_bit :: "float \<Rightarrow> bool" where
  "sign_bit w = bit w 31"

definition exponent :: "float \<Rightarrow> 32 word" where
  "exponent w = drop_bit 23 w AND 0xFF"

definition fraction :: "float \<Rightarrow> 32 word" where
  "fraction w = w AND 0x7FFFFF"

definition is_nan :: "float \<Rightarrow> bool" where
  "is_nan w = (exponent w = 0xFF \<and> fraction w \<noteq> 0)"

definition is_finite :: "float \<Rightarrow> bool" where
  "is_finite w = (exponent w \<noteq> 0xFF)"

definition float_scaled :: "float \<Rightarrow> int" where
  "float_scaled w =
     (let e = unat (exponent w);
          f = uint (fraction w);
          m = (if e = 0 then f else (2 ^ 23 + f) * 2 ^ (e - 1))
      in if sign_bit w then - m else m)"

text \<open>\<open>a < b\<close> on floats.\<close>

definition flt :: "float \<Rightarrow> float \<Rightarrow> bool" where
  "flt a b = (\<not> is_nan a \<and> \<not> is_nan b \<and> float_scaled a < float_scaled b)"

text \<open>\<open>a > b\<close> on floats.\<close>

definition fgt :: "float \<Rightarrow> float \<Rightarrow> bool" where
  "fgt a b = flt b a"

text \<open>\<open>a <= b\<close> on floats; the code never evaluates it, the preconditions of the
  kernel's contract are stated with it.\<close>

definition fle :: "float \<Rightarrow> float \<Rightarrow> bool" where
  "fle a b = (\<not> is_nan a \<and> \<not> is_nan b \<and> float_scaled a \<le> float_scaled b)"

section \<open>Memory, accesses and undefined behaviour\<close>

text \<open>
  Both buffers are \<open>float*\<close>, so pointer arithmetic counts 4-byte cells.  An address is the
  index of a cell, the memory a total map from cells to patterns.  The same memory holds
  the input and the output buffer, so that overlapping buffers are modelled as they are.
  Every access of the kernel is recorded, in order, in \<open>trace\<close>.
\<close>

type_synonym addr = nat

datatype access = Rd addr | Wr addr

record machine =
  mem :: "addr \<Rightarrow> float"
  trace :: "access list"

text \<open>The aligned vector loads and stores require a pointer that is a multiple of the
  vector size; anything else is undefined behaviour, which the model reports.\<close>

datatype fault = Misaligned addr

definition load :: "addr \<Rightarrow> machine \<Rightarrow> float \<times> machine" where
  "load p s = (mem s p, s\<lparr>trace := trace s @ [Rd p]\<rparr>)"

definition store :: "addr \<Rightarrow> float \<Rightarrow> machine \<Rightarrow> machine" where
  "store p v s = s\<lparr>mem := (mem s)(p := v), trace := trace s @ [Wr p]\<rparr>"

section \<open>The scalar statement and the scalar loop\<close>

text \<open>
  \<^verbatim>\<open>*out++ = (*in > max) ? max : (*in < min) ? min : *in;\<close>

  One execution of the statement with the pointers at \<open>out\<close> and \<open>in\<close>.  Each \<open>*in\<close> that
  is evaluated is a read; the store comes last.
\<close>

definition scalar_step :: "addr \<Rightarrow> addr \<Rightarrow> float \<Rightarrow> float \<Rightarrow> machine \<Rightarrow> machine" where
  "scalar_step out inp min_v max_v s =
     (case load inp s of (x, s1) \<Rightarrow>
        if fgt x max_v then store out max_v s1
        else (case load inp s1 of (y, s2) \<Rightarrow>
          if flt y min_v then store out min_v s2
          else (case load inp s2 of (z, s3) \<Rightarrow> store out z s3)))"

text \<open>
  \<^verbatim>\<open>for (; number < num_points; number++) { <statement>; in++; }\<close>

  The five functions of the file end with this loop, word for word; \<open>number\<close> and
  \<open>num_points\<close> are 32-bit unsigned.
\<close>

function scalar_loop ::
  "addr \<Rightarrow> addr \<Rightarrow> float \<Rightarrow> float \<Rightarrow> 32 word \<Rightarrow> 32 word \<Rightarrow> machine \<Rightarrow> machine" where
  "scalar_loop out inp min_v max_v num_points number s =
     (if number < num_points
      then scalar_loop (out + 1) (inp + 1) min_v max_v num_points (number + 1)
             (scalar_step out inp min_v max_v s)
      else s)"
  by pat_completeness auto
termination
  apply (relation "measure (\<lambda>(out, inp, min_v, max_v, num_points, number, s).
                             unat num_points - unat number)")
   apply simp
  subgoal for out inp min_v max_v num_points number s
    using unsigned_less [of num_points, where ?'a = nat]
    by (simp add: word_less_nat_alt unat_word_ariths)
  done

declare scalar_loop.simps [simp del]

text \<open>\<open>volk_32f_s32f_x2_clamp_32f_generic\<close>: the scalar loop from \<open>number = 0\<close>.\<close>

definition volk_32f_s32f_x2_clamp_32f_generic ::
  "addr \<Rightarrow> addr \<Rightarrow> float \<Rightarrow> float \<Rightarrow> 32 word \<Rightarrow> machine \<Rightarrow> machine" where
  "volk_32f_s32f_x2_clamp_32f_generic out inp min_v max_v num_points s =
     scalar_loop out inp min_v max_v num_points 0 s"

section \<open>Vector registers and the intrinsics the kernel calls\<close>

text \<open>
  Modelled from the spec: the intrinsics of \<open>immintrin.h\<close>, a header of the compiler that
  is not part of the repository.  Section 4.2 of the specification describes what the main
  loop asks of them (load of \<open>W\<close> contiguous elements, broadcast of the bounds, two
  lane-wise masks by ordered comparison, lane-wise select, store of \<open>W\<close> contiguous
  elements, and the alignment the aligned variants may assume); this is the documented
  operation of the intrinsics.  A vector register (\<open>__m128\<close>, \<open>__m256\<close>) is the list of
  its lanes, lane 0 first:
  \<^item> \<open>set1\<close> broadcasts a scalar to every lane;
  \<^item> \<open>load\<close>/\<open>loadu\<close> read consecutive cells, \<open>store\<close>/\<open>storeu\<close> write them; the aligned
    forms need an address that is a multiple of the register size (16 bytes, 4 cells, for
    SSE; 32 bytes, 8 cells, for AVX), cell 0 lying on such a boundary;
  \<^item> \<open>cmplt\<close> (and \<open>cmp\<close> with predicate \<open>_CMP_LT_OS\<close>) sets a lane to all ones when
    \<open>a[k] < b[k]\<close>, ordered (false on NaN), and to zero otherwise;
  \<^item> \<open>blendv a b m\<close> takes lane \<open>k\<close> from \<open>b\<close> when bit 31 of \<open>m[k]\<close> is set and from
    \<open>a\<close> otherwise.
\<close>

type_synonym vreg = "float list"

definition lanes_set1 :: "nat \<Rightarrow> float \<Rightarrow> vreg" where
  "lanes_set1 w a = replicate w a"

definition lanes_loadu :: "nat \<Rightarrow> addr \<Rightarrow> machine \<Rightarrow> vreg \<times> machine" where
  "lanes_loadu w p s = (map (mem s) [p..<p + w], s\<lparr>trace := trace s @ map Rd [p..<p + w]\<rparr>)"

definition lanes_storeu :: "addr \<Rightarrow> vreg \<Rightarrow> machine \<Rightarrow> machine" where
  "lanes_storeu p v s =
     s\<lparr>mem := (\<lambda>a. if p \<le> a \<and> a < p + length v then v ! (a - p) else mem s a),
       trace := trace s @ map Wr [p..<p + length v]\<rparr>"

definition lanes_load :: "nat \<Rightarrow> addr \<Rightarrow> machine \<Rightarrow> fault + vreg \<times> machine" where
  "lanes_load w p s = (if w dvd p then Inr (lanes_loadu w p s) else Inl (Misaligned p))"

definition lanes_store :: "nat \<Rightarrow> addr \<Rightarrow> vreg \<Rightarrow> machine \<Rightarrow> fault + machine" where
  "lanes_store w p v s = (if w dvd p then Inr (lanes_storeu p v s) else Inl (Misaligned p))"

definition lanes_cmplt :: "vreg \<Rightarrow> vreg \<Rightarrow> vreg" where
  "lanes_cmplt a b = map (\<lambda>(x, y). if flt x y then 0xFFFFFFFF else 0) (zip a b)"

definition lanes_blendv :: "vreg \<Rightarrow> vreg \<Rightarrow> vreg \<Rightarrow> vreg" where
  "lanes_blendv a b msk = map (\<lambda>(x, y, m). if bit m 31 then y else x) (zip a (zip b msk))"

text \<open>SSE, 4 lanes.\<close>

definition mm_set1_ps :: "float \<Rightarrow> vreg" where
  "mm_set1_ps a = lanes_set1 4 a"

definition mm_load_ps :: "addr \<Rightarrow> machine \<Rightarrow> fault + vreg \<times> machine" where
  "mm_load_ps p s = lanes_load 4 p s"

definition mm_loadu_ps :: "addr \<Rightarrow> machine \<Rightarrow> vreg \<times> machine" where
  "mm_loadu_ps p s = lanes_loadu 4 p s"

definition mm_store_ps :: "addr \<Rightarrow> vreg \<Rightarrow> machine \<Rightarrow> fault + machine" where
  "mm_store_ps p v s = lanes_store 4 p v s"

definition mm_storeu_ps :: "addr \<Rightarrow> vreg \<Rightarrow> machine \<Rightarrow> machine" where
  "mm_storeu_ps p v s = lanes_storeu p v s"

definition mm_cmplt_ps :: "vreg \<Rightarrow> vreg \<Rightarrow> vreg" where
  "mm_cmplt_ps a b = lanes_cmplt a b"

definition mm_blendv_ps :: "vreg \<Rightarrow> vreg \<Rightarrow> vreg \<Rightarrow> vreg" where
  "mm_blendv_ps a b msk = lanes_blendv a b msk"

text \<open>AVX, 8 lanes.  The only comparison predicate the kernel passes is \<open>_CMP_LT_OS\<close>.\<close>

datatype cmp_predicate = CMP_LT_OS

definition mm256_set1_ps :: "float \<Rightarrow> vreg" where
  "mm256_set1_ps a = lanes_set1 8 a"

definition mm256_load_ps :: "addr \<Rightarrow> machine \<Rightarrow> fault + vreg \<times> machine" where
  "mm256_load_ps p s = lanes_load 8 p s"

definition mm256_loadu_ps :: "addr \<Rightarrow> machine \<Rightarrow> vreg \<times> machine" where
  "mm256_loadu_ps p s = lanes_loadu 8 p s"

definition mm256_store_ps :: "addr \<Rightarrow> vreg \<Rightarrow> machine \<Rightarrow> fault + machine" where
  "mm256_store_ps p v s = lanes_store 8 p v s"

definition mm256_storeu_ps :: "addr \<Rightarrow> vreg \<Rightarrow> machine \<Rightarrow> machine" where
  "mm256_storeu_ps p v s = lanes_storeu p v s"

fun mm256_cmp_ps :: "vreg \<Rightarrow> vreg \<Rightarrow> cmp_predicate \<Rightarrow> vreg" where
  "mm256_cmp_ps a b CMP_LT_OS = lanes_cmplt a b"

definition mm256_blendv_ps :: "vreg \<Rightarrow> vreg \<Rightarrow> vreg \<Rightarrow> vreg" where
  "mm256_blendv_ps a b msk = lanes_blendv a b msk"

section \<open>The vector strategies\<close>

text \<open>
  The main loop of \<open>volk_32f_s32f_x2_clamp_32f_a_avx2\<close>:
  \<^verbatim>\<open>
  for (; number < eighth_points; number++) {
      __m256 res = _mm256_load_ps(in);
      __m256 max_mask = _mm256_cmp_ps(vmax, res, _CMP_LT_OS);
      __m256 min_mask = _mm256_cmp_ps(res, vmin, _CMP_LT_OS);
      res = _mm256_blendv_ps(res, vmax, max_mask);
      res = _mm256_blendv_ps(res, vmin, min_mask);
      _mm256_store_ps(out, res);
      in += 8;
      out += 8;
  }
  \<close>
  The loop returns the advanced pointers, which the scalar loop after it goes on with.
\<close>

function a_avx2_main_loop ::
  "addr \<Rightarrow> addr \<Rightarrow> vreg \<Rightarrow> vreg \<Rightarrow> 32 word \<Rightarrow> 32 word \<Rightarrow> machine
     \<Rightarrow> fault + addr \<times> addr \<times> machine" where
  "a_avx2_main_loop out inp vmin vmax eighth_points number s =
     (if number < eighth_points then
        (case mm256_load_ps inp s of
           Inl e \<Rightarrow> Inl e
         | Inr (res, s1) \<Rightarrow>
             (let max_mask = mm256_cmp_ps vmax res CMP_LT_OS;
                  min_mask = mm256_cmp_ps res vmin CMP_LT_OS;
                  res1 = mm256_blendv_ps res vmax max_mask;
                  res2 = mm256_blendv_ps res1 vmin min_mask
              in (case mm256_store_ps out res2 s1 of
                    Inl e \<Rightarrow> Inl e
                  | Inr s2 \<Rightarrow>
                      a_avx2_main_loop (out + 8) (inp + 8) vmin vmax eighth_points
                        (number + 1) s2)))
      else Inr (out, inp, s))"
  by pat_completeness auto
termination
  apply (relation "measure (\<lambda>(out, inp, vmin, vmax, eighth_points, number, s).
                             unat eighth_points - unat number)")
   apply simp
  subgoal for out inp vmin vmax eighth_points number
    using unsigned_less [of eighth_points, where ?'a = nat]
    by (simp add: word_less_nat_alt unat_word_ariths)
  done

declare a_avx2_main_loop.simps [simp del]

definition volk_32f_s32f_x2_clamp_32f_a_avx2 ::
  "addr \<Rightarrow> addr \<Rightarrow> float \<Rightarrow> float \<Rightarrow> 32 word \<Rightarrow> machine \<Rightarrow> fault + machine" where
  "volk_32f_s32f_x2_clamp_32f_a_avx2 out inp min_v max_v num_points s =
     (let vmin = mm256_set1_ps min_v;
          vmax = mm256_set1_ps max_v;
          eighth_points = num_points div 8
      in (case a_avx2_main_loop out inp vmin vmax eighth_points 0 s of
            Inl e \<Rightarrow> Inl e
          | Inr (out', inp', s') \<Rightarrow>
              Inr (scalar_loop out' inp' min_v max_v num_points (eighth_points * 8) s')))"

text \<open>\<open>volk_32f_s32f_x2_clamp_32f_a_sse4_1\<close>: 4 lanes, \<open>_mm_load_ps\<close>, \<open>_mm_cmplt_ps\<close>,
  \<open>_mm_blendv_ps\<close>, \<open>_mm_store_ps\<close>.\<close>

function a_sse4_1_main_loop ::
  "addr \<Rightarrow> addr \<Rightarrow> vreg \<Rightarrow> vreg \<Rightarrow> 32 word \<Rightarrow> 32 word \<Rightarrow> machine
     \<Rightarrow> fault + addr \<times> addr \<times> machine" where
  "a_sse4_1_main_loop out inp vmin vmax quarter_points number s =
     (if number < quarter_points then
        (case mm_load_ps inp s of
           Inl e \<Rightarrow> Inl e
         | Inr (res, s1) \<Rightarrow>
             (let max_mask = mm_cmplt_ps vmax res;
                  min_mask = mm_cmplt_ps res vmin;
                  res1 = mm_blendv_ps res vmax max_mask;
                  res2 = mm_blendv_ps res1 vmin min_mask
              in (case mm_store_ps out res2 s1 of
                    Inl e \<Rightarrow> Inl e
                  | Inr s2 \<Rightarrow>
                      a_sse4_1_main_loop (out + 4) (inp + 4) vmin vmax quarter_points
                        (number + 1) s2)))
      else Inr (out, inp, s))"
  by pat_completeness auto
termination
  apply (relation "measure (\<lambda>(out, inp, vmin, vmax, quarter_points, number, s).
                             unat quarter_points - unat number)")
   apply simp
  subgoal for out inp vmin vmax quarter_points number
    using unsigned_less [of quarter_points, where ?'a = nat]
    by (simp add: word_less_nat_alt unat_word_ariths)
  done

declare a_sse4_1_main_loop.simps [simp del]

definition volk_32f_s32f_x2_clamp_32f_a_sse4_1 ::
  "addr \<Rightarrow> addr \<Rightarrow> float \<Rightarrow> float \<Rightarrow> 32 word \<Rightarrow> machine \<Rightarrow> fault + machine" where
  "volk_32f_s32f_x2_clamp_32f_a_sse4_1 out inp min_v max_v num_points s =
     (let vmin = mm_set1_ps min_v;
          vmax = mm_set1_ps max_v;
          quarter_points = num_points div 4
      in (case a_sse4_1_main_loop out inp vmin vmax quarter_points 0 s of
            Inl e \<Rightarrow> Inl e
          | Inr (out', inp', s') \<Rightarrow>
              Inr (scalar_loop out' inp' min_v max_v num_points (quarter_points * 4) s')))"

text \<open>\<open>volk_32f_s32f_x2_clamp_32f_u_avx2\<close>: as \<open>a_avx2\<close> with \<open>_mm256_loadu_ps\<close> and
  \<open>_mm256_storeu_ps\<close>, which accept any address.\<close>

function u_avx2_main_loop ::
  "addr \<Rightarrow> addr \<Rightarrow> vreg \<Rightarrow> vreg \<Rightarrow> 32 word \<Rightarrow> 32 word \<Rightarrow> machine
     \<Rightarrow> addr \<times> addr \<times> machine" where
  "u_avx2_main_loop out inp vmin vmax eighth_points number s =
     (if number < eighth_points then
        (case mm256_loadu_ps inp s of
           (res, s1) \<Rightarrow>
             (let max_mask = mm256_cmp_ps vmax res CMP_LT_OS;
                  min_mask = mm256_cmp_ps res vmin CMP_LT_OS;
                  res1 = mm256_blendv_ps res vmax max_mask;
                  res2 = mm256_blendv_ps res1 vmin min_mask;
                  s2 = mm256_storeu_ps out res2 s1
              in u_avx2_main_loop (out + 8) (inp + 8) vmin vmax eighth_points
                   (number + 1) s2))
      else (out, inp, s))"
  by pat_completeness auto
termination
  apply (relation "measure (\<lambda>(out, inp, vmin, vmax, eighth_points, number, s).
                             unat eighth_points - unat number)")
   apply simp
  subgoal for out inp vmin vmax eighth_points number
    using unsigned_less [of eighth_points, where ?'a = nat]
    by (simp add: word_less_nat_alt unat_word_ariths)
  done

declare u_avx2_main_loop.simps [simp del]

definition volk_32f_s32f_x2_clamp_32f_u_avx2 ::
  "addr \<Rightarrow> addr \<Rightarrow> float \<Rightarrow> float \<Rightarrow> 32 word \<Rightarrow> machine \<Rightarrow> machine" where
  "volk_32f_s32f_x2_clamp_32f_u_avx2 out inp min_v max_v num_points s =
     (let vmin = mm256_set1_ps min_v;
          vmax = mm256_set1_ps max_v;
          eighth_points = num_points div 8
      in (case u_avx2_main_loop out inp vmin vmax eighth_points 0 s of
            (out', inp', s') \<Rightarrow>
              scalar_loop out' inp' min_v max_v num_points (eighth_points * 8) s'))"

text \<open>\<open>volk_32f_s32f_x2_clamp_32f_u_sse4_1\<close>: as \<open>a_sse4_1\<close> with \<open>_mm_loadu_ps\<close> and
  \<open>_mm_storeu_ps\<close>.\<close>

function u_sse4_1_main_loop ::
  "addr \<Rightarrow> addr \<Rightarrow> vreg \<Rightarrow> vreg \<Rightarrow> 32 word \<Rightarrow> 32 word \<Rightarrow> machine
     \<Rightarrow> addr \<times> addr \<times> machine" where
  "u_sse4_1_main_loop out inp vmin vmax quarter_points number s =
     (if number < quarter_points then
        (case mm_loadu_ps inp s of
           (res, s1) \<Rightarrow>
             (let max_mask = mm_cmplt_ps vmax res;
                  min_mask = mm_cmplt_ps res vmin;
                  res1 = mm_blendv_ps res vmax max_mask;
                  res2 = mm_blendv_ps res1 vmin min_mask;
                  s2 = mm_storeu_ps out res2 s1
              in u_sse4_1_main_loop (out + 4) (inp + 4) vmin vmax quarter_points
                   (number + 1) s2))
      else (out, inp, s))"
  by pat_completeness auto
termination
  apply (relation "measure (\<lambda>(out, inp, vmin, vmax, quarter_points, number, s).
                             unat quarter_points - unat number)")
   apply simp
  subgoal for out inp vmin vmax quarter_points number
    using unsigned_less [of quarter_points, where ?'a = nat]
    by (simp add: word_less_nat_alt unat_word_ariths)
  done

declare u_sse4_1_main_loop.simps [simp del]

definition volk_32f_s32f_x2_clamp_32f_u_sse4_1 ::
  "addr \<Rightarrow> addr \<Rightarrow> float \<Rightarrow> float \<Rightarrow> 32 word \<Rightarrow> machine \<Rightarrow> machine" where
  "volk_32f_s32f_x2_clamp_32f_u_sse4_1 out inp min_v max_v num_points s =
     (let vmin = mm_set1_ps min_v;
          vmax = mm_set1_ps max_v;
          quarter_points = num_points div 4
      in (case u_sse4_1_main_loop out inp vmin vmax quarter_points 0 s of
            (out', inp', s') \<Rightarrow>
              scalar_loop out' inp' min_v max_v num_points (quarter_points * 4) s'))"

section \<open>The entry points as one family\<close>

text \<open>
  Which entry point runs is decided outside the kernel.  To speak about "every
  strategy", the five entry points are listed and run through one function; the three
  that cannot fault return \<open>Inr\<close>.
\<close>

datatype strategy = Generic | A_sse4_1 | U_sse4_1 | A_avx2 | U_avx2

fun run :: "strategy \<Rightarrow> addr \<Rightarrow> addr \<Rightarrow> float \<Rightarrow> float \<Rightarrow> 32 word \<Rightarrow> machine
              \<Rightarrow> fault + machine" where
  "run Generic out inp min_v max_v num_points s =
     Inr (volk_32f_s32f_x2_clamp_32f_generic out inp min_v max_v num_points s)"
| "run A_sse4_1 out inp min_v max_v num_points s =
     volk_32f_s32f_x2_clamp_32f_a_sse4_1 out inp min_v max_v num_points s"
| "run U_sse4_1 out inp min_v max_v num_points s =
     Inr (volk_32f_s32f_x2_clamp_32f_u_sse4_1 out inp min_v max_v num_points s)"
| "run A_avx2 out inp min_v max_v num_points s =
     volk_32f_s32f_x2_clamp_32f_a_avx2 out inp min_v max_v num_points s"
| "run U_avx2 out inp min_v max_v num_points s =
     Inr (volk_32f_s32f_x2_clamp_32f_u_avx2 out inp min_v max_v num_points s)"

text \<open>The number of elements one iteration of the main loop handles; the scalar strategy
  has no main loop.\<close>

fun width :: "strategy \<Rightarrow> nat" where
  "width Generic = 1"
| "width A_sse4_1 = 4"
| "width U_sse4_1 = 4"
| "width A_avx2 = 8"
| "width U_avx2 = 8"

text \<open>The alignment the aligned entry points ask of both pointers.\<close>

fun aligned_for :: "strategy \<Rightarrow> addr \<Rightarrow> addr \<Rightarrow> bool" where
  "aligned_for A_sse4_1 out inp = (4 dvd out \<and> 4 dvd inp)"
| "aligned_for A_avx2 out inp = (8 dvd out \<and> 8 dvd inp)"
| "aligned_for Generic out inp = True"
| "aligned_for U_sse4_1 out inp = True"
| "aligned_for U_avx2 out inp = True"

text \<open>The main loop of a vector strategy, as the entry point starts it.\<close>

fun main_loop :: "strategy \<Rightarrow> addr \<Rightarrow> addr \<Rightarrow> float \<Rightarrow> float \<Rightarrow> 32 word \<Rightarrow> machine
              \<Rightarrow> fault + addr \<times> addr \<times> machine" where
  "main_loop Generic out inp min_v max_v num_points s = Inr (out, inp, s)"
| "main_loop A_sse4_1 out inp min_v max_v num_points s =
     a_sse4_1_main_loop out inp (mm_set1_ps min_v) (mm_set1_ps max_v) (num_points div 4) 0 s"
| "main_loop U_sse4_1 out inp min_v max_v num_points s =
     Inr (u_sse4_1_main_loop out inp (mm_set1_ps min_v) (mm_set1_ps max_v)
            (num_points div 4) 0 s)"
| "main_loop A_avx2 out inp min_v max_v num_points s =
     a_avx2_main_loop out inp (mm256_set1_ps min_v) (mm256_set1_ps max_v)
       (num_points div 8) 0 s"
| "main_loop U_avx2 out inp min_v max_v num_points s =
     Inr (u_avx2_main_loop out inp (mm256_set1_ps min_v) (mm256_set1_ps max_v)
            (num_points div 8) 0 s)"

section \<open>The specification's clamp and the buffers it speaks about\<close>

text \<open>
  The per-element formula as the specification writes it (section 4.1):
  \<open>input > max ? max : (input < min ? min : input)\<close>, the test against \<open>max\<close> first.
\<close>

definition clamp_ref :: "float \<Rightarrow> float \<Rightarrow> float \<Rightarrow> float" where
  "clamp_ref x min_v max_v = (if fgt x max_v then max_v else if flt x min_v then min_v else x)"

text \<open>
  The buffers of a call are \<open>num_points\<close> cells from \<open>inp\<close> and from \<open>out\<close>.  The
  specification lets them be disjoint or the same; both are instances of: no cell of the
  input is written before it has been read, which holds when the output does not start
  after the input (\<open>out \<le> inp\<close>) or starts after its end.
\<close>

definition read_before_write :: "addr \<Rightarrow> addr \<Rightarrow> nat \<Rightarrow> bool" where
  "read_before_write out inp n = (out \<le> inp \<or> inp + n \<le> out)"

section \<open>The loops by iteration count\<close>

text \<open>
  The loops count with 32-bit words.  For the proofs each loop is related to the plain
  recursion over the number of iterations left.
\<close>

fun scalar_iter :: "nat \<Rightarrow> addr \<Rightarrow> addr \<Rightarrow> float \<Rightarrow> float \<Rightarrow> machine \<Rightarrow> machine" where
  "scalar_iter 0 out inp min_v max_v s = s"
| "scalar_iter (Suc k) out inp min_v max_v s =
     scalar_iter k (out + 1) (inp + 1) min_v max_v (scalar_step out inp min_v max_v s)"

text \<open>One iteration of a main loop of \<open>w\<close> lanes, with the unaligned load and store.\<close>

definition vec_step :: "nat \<Rightarrow> addr \<Rightarrow> addr \<Rightarrow> float \<Rightarrow> float \<Rightarrow> machine \<Rightarrow> machine" where
  "vec_step w out inp min_v max_v s =
     (case lanes_loadu w inp s of
        (res, s1) \<Rightarrow>
          (let vmin = lanes_set1 w min_v;
               vmax = lanes_set1 w max_v;
               max_mask = lanes_cmplt vmax res;
               min_mask = lanes_cmplt res vmin;
               res1 = lanes_blendv res vmax max_mask;
               res2 = lanes_blendv res1 vmin min_mask
           in lanes_storeu out res2 s1))"

fun vec_iter :: "nat \<Rightarrow> nat \<Rightarrow> addr \<Rightarrow> addr \<Rightarrow> float \<Rightarrow> float \<Rightarrow> machine \<Rightarrow> machine" where
  "vec_iter w 0 out inp min_v max_v s = s"
| "vec_iter w (Suc k) out inp min_v max_v s =
     vec_iter w k (out + w) (inp + w) min_v max_v (vec_step w out inp min_v max_v s)"

text \<open>The accesses of \<open>g\<close> iterations of a main loop of \<open>w\<close> lanes: per iteration the \<open>w\<close>
  cells of the input are read, then the \<open>w\<close> cells of the output are written.\<close>

fun group_accesses :: "nat \<Rightarrow> nat \<Rightarrow> addr \<Rightarrow> addr \<Rightarrow> access list" where
  "group_accesses w 0 out inp = []"
| "group_accesses w (Suc g) out inp =
     map Rd [inp..<inp + w] @ map Wr [out..<out + w] @ group_accesses w g (out + w) (inp + w)"

text \<open>What one lane of a main loop holds after the two selects, for the lane value \<open>x\<close>:
  \<open>min\<close> where the \<open>min\<close> mask is set, else \<open>max\<close> where the \<open>max\<close> mask is set, else \<open>x\<close>.\<close>

definition lane_select :: "float \<Rightarrow> float \<Rightarrow> float \<Rightarrow> float" where
  "lane_select x min_v max_v =
     (let max_mask = (if flt max_v x then 0xFFFFFFFF else 0 :: float);
          min_mask = (if flt x min_v then 0xFFFFFFFF else 0 :: float);
          res1 = (if bit max_mask 31 then max_v else x)
      in if bit min_mask 31 then min_v else res1)"

text \<open>The number of iterations of the main loop for \<open>n\<close> elements: \<open>n div w\<close> for a vector
  strategy of width \<open>w\<close>, none for the scalar strategy.\<close>

definition groups :: "strategy \<Rightarrow> nat \<Rightarrow> nat" where
  "groups st n = (if st = Generic then 0 else n div width st)"

text \<open>A whole call by iteration counts: the main loop, then the scalar loop on what is
  left, from the pointers the main loop has reached.\<close>

definition run_by_count ::
  "strategy \<Rightarrow> addr \<Rightarrow> addr \<Rightarrow> float \<Rightarrow> float \<Rightarrow> nat \<Rightarrow> machine \<Rightarrow> machine" where
  "run_by_count st out inp min_v max_v n s =
     (let w = width st; g = groups st n
      in scalar_iter (n - w * g) (out + w * g) (inp + w * g) min_v max_v
           (vec_iter w g out inp min_v max_v s))"

text \<open>The value a strategy computes for element \<open>i\<close> of \<open>n\<close>: the main loop covers the first
  \<open>w * (n div w)\<close> elements, the scalar loop the others.\<close>

definition element_result :: "strategy \<Rightarrow> nat \<Rightarrow> nat \<Rightarrow> float \<Rightarrow> float \<Rightarrow> float \<Rightarrow> float" where
  "element_result st n i x min_v max_v =
     (if i < width st * groups st n
      then lane_select x min_v max_v else clamp_ref x min_v max_v)"

section \<open>Example memories\<close>

text \<open>
  The example of the header's documentation: \<open>x = {-2.f, -1.f, 1.f, 2.f}\<close> in cells 0 to 3
  (\<open>-2.0 = 0xC0000000\<close>, \<open>-1.0 = 0xBF800000\<close>, \<open>1.0 = 0x3F800000\<close>, \<open>2.0 = 0x40000000\<close>);
  the bounds of the example are \<open>-1.5 = 0xBFC00000\<close> and \<open>1.5 = 0x3FC00000\<close>.
\<close>

definition doc_example :: machine where
  "doc_example =
     \<lparr>mem = (\<lambda>a. 0)(0 := 0xC0000000, 1 := 0xBF800000, 2 := 0x3F800000, 3 := 0x40000000),
      trace = []\<rparr>"

text \<open>The specification's example with a NaN: \<open>input = [NaN, 5.0]\<close> in cells 0 and 1
  (a quiet NaN is \<open>0x7FC00000\<close>, \<open>5.0 = 0x40A00000\<close>).\<close>

definition nan_example :: machine where
  "nan_example = \<lparr>mem = (\<lambda>a. 0)(0 := 0x7FC00000, 1 := 0x40A00000), trace = []\<rparr>"

text \<open>A memory with \<open>1.0\<close> in every cell.\<close>

definition ones :: machine where
  "ones = \<lparr>mem = (\<lambda>a. 0x3F800000), trace = []\<rparr>"

section \<open>Facts about the comparisons, the steps and the loops\<close>

subsection \<open>Ordered comparison\<close>

lemma flt_irrefl: "\<not> flt a a"
  by (simp add: flt_def)

lemma flt_trans: "flt a b \<Longrightarrow> flt b c \<Longrightarrow> flt a c"
  by (auto simp add: flt_def)

lemma fle_not_flt: "fle a b \<Longrightarrow> \<not> flt b a"
  by (auto simp add: fle_def flt_def)

lemma nan_not_flt: "is_nan x \<Longrightarrow> \<not> flt x y \<and> \<not> flt y x"
  by (simp add: flt_def)

lemma fle_flt_trans: "fle a b \<Longrightarrow> flt b c \<Longrightarrow> flt a c"
  by (auto simp add: fle_def flt_def)

subsection \<open>One lane, one scalar statement\<close>

lemma lane_select_eq:
  "lane_select x min_v max_v = (if flt x min_v then min_v else if flt max_v x then max_v else x)"
  by (simp add: lane_select_def)

lemma lane_select_clamp_ref:
  "\<not> flt max_v min_v \<Longrightarrow> lane_select x min_v max_v = clamp_ref x min_v max_v"
  using flt_trans [of max_v x min_v]
  by (auto simp add: lane_select_eq clamp_ref_def fgt_def)

lemma scalar_step_mem:
  "mem (scalar_step out inp min_v max_v s) = (mem s)(out := clamp_ref (mem s inp) min_v max_v)"
  by (simp add: scalar_step_def load_def store_def clamp_ref_def)

lemma scalar_step_trace:
  "\<exists>rs. trace (scalar_step out inp min_v max_v s) = trace s @ rs @ [Wr out] \<and> set rs = {Rd inp}"
  by (auto simp add: scalar_step_def load_def store_def)

subsection \<open>The word-counted loops and their iteration counts\<close>

lemma scalar_loop_iter:
  "scalar_loop out inp min_v max_v n number s =
     scalar_iter (unat n - unat number) out inp min_v max_v s"
proof (induction out inp min_v max_v n number s rule: scalar_loop.induct)
  case (1 out inp min_v max_v n number s)
  show ?case
  proof (cases "number < n")
    case True
    have "unat n - unat number = Suc (unat n - unat (number + 1))"
      using True unsigned_less [of n, where ?'a = nat]
      by (simp add: word_less_nat_alt unat_word_ariths)
    with True "1.IH" show ?thesis
      by (subst scalar_loop.simps) simp
  next
    case False
    then have "unat n - unat number = 0"
      by (simp add: word_less_nat_alt)
    with False show ?thesis
      by (subst scalar_loop.simps) simp
  qed
qed


subsection \<open>One iteration of a main loop\<close>

lemma lanes_select_nth:
  assumes "length res = w" and "k < w"
  shows "lanes_blendv (lanes_blendv res (lanes_set1 w max_v) (lanes_cmplt (lanes_set1 w max_v) res))
           (lanes_set1 w min_v) (lanes_cmplt res (lanes_set1 w min_v)) ! k
         = lane_select (res ! k) min_v max_v"
  using assms
  by (simp add: lanes_blendv_def lanes_cmplt_def lanes_set1_def lane_select_def)

lemma lanes_select_length:
  assumes "length res = w"
  shows "length (lanes_blendv (lanes_blendv res (lanes_set1 w max_v)
                   (lanes_cmplt (lanes_set1 w max_v) res))
           (lanes_set1 w min_v) (lanes_cmplt res (lanes_set1 w min_v))) = w"
  using assms
  by (simp add: lanes_blendv_def lanes_cmplt_def lanes_set1_def)

lemma vec_step_mem:
  "mem (vec_step w out inp min_v max_v s) a =
     (if out \<le> a \<and> a < out + w then lane_select (mem s (inp + (a - out))) min_v max_v
      else mem s a)"
proof -
  let ?res = "map (mem s) [inp..<inp + w]"
  let ?sel = "lanes_blendv (lanes_blendv ?res (lanes_set1 w max_v)
                 (lanes_cmplt (lanes_set1 w max_v) ?res))
               (lanes_set1 w min_v) (lanes_cmplt ?res (lanes_set1 w min_v))"
  have len: "length ?res = w" by simp
  have m: "mem (vec_step w out inp min_v max_v s) a =
             (if out \<le> a \<and> a < out + w then ?sel ! (a - out) else mem s a)"
    by (simp add: vec_step_def lanes_loadu_def lanes_loadu_def lanes_storeu_def Let_def
          lanes_select_length [OF len])
  show ?thesis
  proof (cases "out \<le> a \<and> a < out + w")
    case True
    then have k: "a - out < w" by arith
    have r: "?res ! (a - out) = mem s (inp + (a - out))"
      using k by simp
    from True have "mem (vec_step w out inp min_v max_v s) a = ?sel ! (a - out)"
      by (simp add: m)
    also have "\<dots> = lane_select (?res ! (a - out)) min_v max_v"
      by (rule lanes_select_nth [OF len k])
    finally show ?thesis
      using True by (simp add: r)
  next
    case False
    then show ?thesis
      by (simp only: m if_False)
  qed
qed

lemma vec_step_trace:
  "trace (vec_step w out inp min_v max_v s) =
     trace s @ map Rd [inp..<inp + w] @ map Wr [out..<out + w]"
proof -
  have len: "length (map (mem s) [inp..<inp + w]) = w" by simp
  show ?thesis
    by (simp add: vec_step_def lanes_loadu_def lanes_loadu_def lanes_storeu_def Let_def
          lanes_select_length [OF len])
qed


subsection \<open>The four main loops\<close>

lemma u_sse4_1_main_loop_stop:
  "\<not> number < q \<Longrightarrow> u_sse4_1_main_loop out inp vmin vmax q number s = (out, inp, s)"
  by (subst u_sse4_1_main_loop.simps) simp

lemma u_sse4_1_main_loop_step:
  "number < q \<Longrightarrow> 
   u_sse4_1_main_loop out inp (mm_set1_ps min_v) (mm_set1_ps max_v) q number s =
     u_sse4_1_main_loop (out + 4) (inp + 4) (mm_set1_ps min_v) (mm_set1_ps max_v) q (number + 1)
       (vec_step 4 out inp min_v max_v s)"
  by (subst u_sse4_1_main_loop.simps)
     (simp add: vec_step_def lanes_loadu_def mm_loadu_ps_def mm_storeu_ps_def mm_cmplt_ps_def mm_blendv_ps_def mm_set1_ps_def Let_def)

lemma u_sse4_1_main_loop_iter:
  "unat q - unat number = k \<Longrightarrow> 
   u_sse4_1_main_loop out inp (mm_set1_ps min_v) (mm_set1_ps max_v) q number s =
     (out + 4 * k, inp + 4 * k, vec_iter 4 k out inp min_v max_v s)"
proof (induction k arbitrary: out inp number s)
  case 0
  then have "\<not> number < q"
    by (simp add: word_less_nat_alt)
  then show ?case
    by (simp add: u_sse4_1_main_loop_stop)
next
  case (Suc k)
  then have lt: "number < q"
    by (simp add: word_less_nat_alt)
  have "unat q - unat (number + 1) = k"
    using Suc.prems(1) lt unsigned_less [of q, where ?'a = nat]
    by (simp add: word_less_nat_alt unat_word_ariths)
  then have "u_sse4_1_main_loop (out + 4) (inp + 4) (mm_set1_ps min_v) (mm_set1_ps max_v) q (number + 1)
               (vec_step 4 out inp min_v max_v s) =
             (out + 4 + 4 * k, inp + 4 + 4 * k,
              vec_iter 4 k (out + 4) (inp + 4) min_v max_v (vec_step 4 out inp min_v max_v s))"
    using Suc.prems by (intro Suc.IH) simp_all
  with lt Suc.prems show ?case
    by (simp add: u_sse4_1_main_loop_step)
qed

lemma a_sse4_1_main_loop_stop:
  "\<not> number < q \<Longrightarrow> a_sse4_1_main_loop out inp vmin vmax q number s = Inr (out, inp, s)"
  by (subst a_sse4_1_main_loop.simps) simp

lemma a_sse4_1_main_loop_step:
  "number < q \<Longrightarrow> 4 dvd out \<Longrightarrow> 4 dvd inp \<Longrightarrow> 
   a_sse4_1_main_loop out inp (mm_set1_ps min_v) (mm_set1_ps max_v) q number s =
     a_sse4_1_main_loop (out + 4) (inp + 4) (mm_set1_ps min_v) (mm_set1_ps max_v) q (number + 1)
       (vec_step 4 out inp min_v max_v s)"
  by (subst a_sse4_1_main_loop.simps)
     (simp add: vec_step_def lanes_loadu_def mm_load_ps_def mm_store_ps_def mm_cmplt_ps_def mm_blendv_ps_def mm_set1_ps_def
        lanes_load_def lanes_store_def Let_def)

lemma a_sse4_1_main_loop_iter:
  "unat q - unat number = k \<Longrightarrow> 4 dvd out \<Longrightarrow> 4 dvd inp \<Longrightarrow> 
   a_sse4_1_main_loop out inp (mm_set1_ps min_v) (mm_set1_ps max_v) q number s =
     Inr (out + 4 * k, inp + 4 * k, vec_iter 4 k out inp min_v max_v s)"
proof (induction k arbitrary: out inp number s)
  case 0
  then have "\<not> number < q"
    by (simp add: word_less_nat_alt)
  then show ?case
    by (simp add: a_sse4_1_main_loop_stop)
next
  case (Suc k)
  then have lt: "number < q"
    by (simp add: word_less_nat_alt)
  have "unat q - unat (number + 1) = k"
    using Suc.prems(1) lt unsigned_less [of q, where ?'a = nat]
    by (simp add: word_less_nat_alt unat_word_ariths)
  then have "a_sse4_1_main_loop (out + 4) (inp + 4) (mm_set1_ps min_v) (mm_set1_ps max_v) q (number + 1)
               (vec_step 4 out inp min_v max_v s) =
             Inr (out + 4 + 4 * k, inp + 4 + 4 * k,
                  vec_iter 4 k (out + 4) (inp + 4) min_v max_v (vec_step 4 out inp min_v max_v s))"
    using Suc.prems by (intro Suc.IH) simp_all
  with lt Suc.prems show ?case
    by (simp add: a_sse4_1_main_loop_step)
qed

lemma u_avx2_main_loop_stop:
  "\<not> number < q \<Longrightarrow> u_avx2_main_loop out inp vmin vmax q number s = (out, inp, s)"
  by (subst u_avx2_main_loop.simps) simp

lemma u_avx2_main_loop_step:
  "number < q \<Longrightarrow> 
   u_avx2_main_loop out inp (mm256_set1_ps min_v) (mm256_set1_ps max_v) q number s =
     u_avx2_main_loop (out + 8) (inp + 8) (mm256_set1_ps min_v) (mm256_set1_ps max_v) q (number + 1)
       (vec_step 8 out inp min_v max_v s)"
  by (subst u_avx2_main_loop.simps)
     (simp add: vec_step_def lanes_loadu_def mm256_loadu_ps_def mm256_storeu_ps_def mm256_blendv_ps_def mm256_set1_ps_def Let_def)

lemma u_avx2_main_loop_iter:
  "unat q - unat number = k \<Longrightarrow> 
   u_avx2_main_loop out inp (mm256_set1_ps min_v) (mm256_set1_ps max_v) q number s =
     (out + 8 * k, inp + 8 * k, vec_iter 8 k out inp min_v max_v s)"
proof (induction k arbitrary: out inp number s)
  case 0
  then have "\<not> number < q"
    by (simp add: word_less_nat_alt)
  then show ?case
    by (simp add: u_avx2_main_loop_stop)
next
  case (Suc k)
  then have lt: "number < q"
    by (simp add: word_less_nat_alt)
  have "unat q - unat (number + 1) = k"
    using Suc.prems(1) lt unsigned_less [of q, where ?'a = nat]
    by (simp add: word_less_nat_alt unat_word_ariths)
  then have "u_avx2_main_loop (out + 8) (inp + 8) (mm256_set1_ps min_v) (mm256_set1_ps max_v) q (number + 1)
               (vec_step 8 out inp min_v max_v s) =
             (out + 8 + 8 * k, inp + 8 + 8 * k,
              vec_iter 8 k (out + 8) (inp + 8) min_v max_v (vec_step 8 out inp min_v max_v s))"
    using Suc.prems by (intro Suc.IH) simp_all
  with lt Suc.prems show ?case
    by (simp add: u_avx2_main_loop_step)
qed

lemma a_avx2_main_loop_stop:
  "\<not> number < q \<Longrightarrow> a_avx2_main_loop out inp vmin vmax q number s = Inr ((out, inp, s))"
  by (subst a_avx2_main_loop.simps) simp

lemma a_avx2_main_loop_step:
  "number < q \<Longrightarrow> 8 dvd out \<Longrightarrow> 8 dvd inp \<Longrightarrow> 
   a_avx2_main_loop out inp (mm256_set1_ps min_v) (mm256_set1_ps max_v) q number s =
     a_avx2_main_loop (out + 8) (inp + 8) (mm256_set1_ps min_v) (mm256_set1_ps max_v) q (number + 1)
       (vec_step 8 out inp min_v max_v s)"
  by (subst a_avx2_main_loop.simps)
     (simp add: vec_step_def lanes_loadu_def mm256_load_ps_def mm256_store_ps_def mm256_blendv_ps_def mm256_set1_ps_def
        lanes_load_def lanes_store_def Let_def)

lemma a_avx2_main_loop_iter:
  "unat q - unat number = k \<Longrightarrow> 8 dvd out \<Longrightarrow> 8 dvd inp \<Longrightarrow> 
   a_avx2_main_loop out inp (mm256_set1_ps min_v) (mm256_set1_ps max_v) q number s =
     Inr (out + 8 * k, inp + 8 * k, vec_iter 8 k out inp min_v max_v s)"
proof (induction k arbitrary: out inp number s)
  case 0
  then have "\<not> number < q"
    by (simp add: word_less_nat_alt)
  then show ?case
    by (simp add: a_avx2_main_loop_stop)
next
  case (Suc k)
  then have lt: "number < q"
    by (simp add: word_less_nat_alt)
  have "unat q - unat (number + 1) = k"
    using Suc.prems(1) lt unsigned_less [of q, where ?'a = nat]
    by (simp add: word_less_nat_alt unat_word_ariths)
  then have "a_avx2_main_loop (out + 8) (inp + 8) (mm256_set1_ps min_v) (mm256_set1_ps max_v) q (number + 1)
               (vec_step 8 out inp min_v max_v s) =
             Inr (out + 8 + 8 * k, inp + 8 + 8 * k,
                  vec_iter 8 k (out + 8) (inp + 8) min_v max_v (vec_step 8 out inp min_v max_v s))"
    using Suc.prems by (intro Suc.IH) simp_all
  with lt Suc.prems show ?case
    by (simp add: a_avx2_main_loop_step)
qed


subsection \<open>The scalar iteration\<close>

lemma scalar_iter_frame:
  "a < out \<or> out + k \<le> a \<Longrightarrow> mem (scalar_iter k out inp min_v max_v s) a = mem s a"
proof (induction k arbitrary: out inp s)
  case 0
  show ?case by simp
next
  case (Suc k)
  then have "mem (scalar_iter k (out + 1) (inp + 1) min_v max_v
                    (scalar_step out inp min_v max_v s)) a
             = mem (scalar_step out inp min_v max_v s) a"
    by (intro Suc.IH) arith
  with Suc.prems show ?case
    by (auto simp add: scalar_step_mem)
qed

lemma scalar_iter_mem:
  "read_before_write out inp k \<Longrightarrow> i < k \<Longrightarrow>
   mem (scalar_iter k out inp min_v max_v s) (out + i) = clamp_ref (mem s (inp + i)) min_v max_v"
proof (induction k arbitrary: out inp s i)
  case 0
  then show ?case by simp
next
  case (Suc k)
  let ?s1 = "scalar_step out inp min_v max_v s"
  show ?case
  proof (cases i)
    case 0
    have "mem (scalar_iter k (out + 1) (inp + 1) min_v max_v ?s1) out = mem ?s1 out"
      by (rule scalar_iter_frame) simp
    with 0 show ?thesis
      by (simp add: scalar_step_mem)
  next
    case (Suc j)
    with Suc.prems have j: "j < k" by simp
    from Suc.prems have rbw: "read_before_write (out + 1) (inp + 1) k"
      by (auto simp add: read_before_write_def)
    from Suc.prems j have ne: "inp + 1 + j \<noteq> out"
      by (auto simp add: read_before_write_def)
    have "mem (scalar_iter k (out + 1) (inp + 1) min_v max_v ?s1) (out + 1 + j)
          = clamp_ref (mem ?s1 (inp + 1 + j)) min_v max_v"
      using rbw j by (rule Suc.IH)
    with ne Suc show ?thesis
      by (simp add: scalar_step_mem)
  qed
qed

lemma scalar_iter_trace:
  "\<exists>evs. trace (scalar_iter k out inp min_v max_v s) = trace s @ evs
         \<and> (\<forall>a. Wr a \<in> set evs \<longrightarrow> out \<le> a \<and> a < out + k)
         \<and> (\<forall>a. Rd a \<in> set evs \<longrightarrow> inp \<le> a \<and> a < inp + k)"
proof (induction k arbitrary: out inp s)
  case 0
  show ?case by simp
next
  case (Suc k)
  let ?s1 = "scalar_step out inp min_v max_v s"
  obtain rs where rs: "trace ?s1 = trace s @ rs @ [Wr out]" "set rs = {Rd inp}"
    using scalar_step_trace by blast
  obtain evs where evs: "trace (scalar_iter k (out + 1) (inp + 1) min_v max_v ?s1)
                           = trace ?s1 @ evs"
      "\<forall>a. Wr a \<in> set evs \<longrightarrow> out + 1 \<le> a \<and> a < out + 1 + k"
      "\<forall>a. Rd a \<in> set evs \<longrightarrow> inp + 1 \<le> a \<and> a < inp + 1 + k"
    using Suc.IH by blast
  have "trace (scalar_iter (Suc k) out inp min_v max_v s) = trace s @ (rs @ [Wr out] @ evs)"
    using rs evs by simp
  moreover have "\<forall>a. Wr a \<in> set (rs @ [Wr out] @ evs) \<longrightarrow> out \<le> a \<and> a < out + Suc k"
    using rs(2) evs(2) by auto
  moreover have "\<forall>a. Rd a \<in> set (rs @ [Wr out] @ evs) \<longrightarrow> inp \<le> a \<and> a < inp + Suc k"
    using rs(2) evs(3) by auto
  ultimately show ?case by blast
qed

subsection \<open>The vector iteration\<close>

lemma vec_iter_frame:
  "a < out \<or> out + w * k \<le> a \<Longrightarrow> mem (vec_iter w k out inp min_v max_v s) a = mem s a"
proof (induction k arbitrary: out inp s)
  case 0
  show ?case by simp
next
  case (Suc k)
  then have "mem (vec_iter w k (out + w) (inp + w) min_v max_v
                    (vec_step w out inp min_v max_v s)) a
             = mem (vec_step w out inp min_v max_v s) a"
    by (intro Suc.IH) auto
  with Suc.prems show ?case
    by (auto simp add: vec_step_mem)
qed

lemma vec_iter_mem:
  "read_before_write out inp m \<Longrightarrow> w * k \<le> m \<Longrightarrow> i < w * k \<Longrightarrow>
   mem (vec_iter w k out inp min_v max_v s) (out + i) = lane_select (mem s (inp + i)) min_v max_v"
proof (induction k arbitrary: out inp s i m)
  case 0
  then show ?case by simp
next
  case (Suc k)
  let ?s1 = "vec_step w out inp min_v max_v s"
  show ?case
  proof (cases "i < w")
    case True
    have "mem (vec_iter w k (out + w) (inp + w) min_v max_v ?s1) (out + i) = mem ?s1 (out + i)"
      using True by (intro vec_iter_frame) simp
    with True show ?thesis
      by (simp add: vec_step_mem)
  next
    case False
    define j where "j = i - w"
    with False have i: "i = w + j" by simp
    from Suc.prems i have j: "j < w * k" by simp
    from Suc.prems have wm: "w * k \<le> m - w" "w \<le> m" by simp_all
    from Suc.prems have rbw: "read_before_write (out + w) (inp + w) (m - w)"
      by (auto simp add: read_before_write_def)
    from Suc.prems i j have ne: "\<not> (out \<le> inp + w + j \<and> inp + w + j < out + w)"
      by (auto simp add: read_before_write_def)
    have "mem (vec_iter w k (out + w) (inp + w) min_v max_v ?s1) (out + w + j)
          = lane_select (mem ?s1 (inp + w + j)) min_v max_v"
      using rbw wm(1) j by (rule Suc.IH)
    moreover have "mem ?s1 (inp + w + j) = mem s (inp + w + j)"
      using ne by (simp only: vec_step_mem if_False)
    ultimately show ?thesis
      by (simp add: i add.assoc)
  qed
qed

lemma vec_iter_trace:
  "trace (vec_iter w k out inp min_v max_v s) = trace s @ group_accesses w k out inp"
  by (induction k arbitrary: out inp s) (simp_all add: vec_step_trace)

lemma group_accesses_Wr:
  "Wr a \<in> set (group_accesses w k out inp) \<Longrightarrow> out \<le> a \<and> a < out + w * k"
proof (induction k arbitrary: out inp)
  case 0
  then show ?case by simp
next
  case (Suc k)
  from Suc.prems have "(out \<le> a \<and> a < out + w) \<or> Wr a \<in> set (group_accesses w k (out + w) (inp + w))"
    by auto
  then show ?case
  proof
    assume "out \<le> a \<and> a < out + w"
    then show ?thesis by simp
  next
    assume "Wr a \<in> set (group_accesses w k (out + w) (inp + w))"
    then have "out + w \<le> a \<and> a < out + w + w * k" by (rule Suc.IH)
    then show ?thesis by simp
  qed
qed

lemma group_accesses_Rd:
  "Rd a \<in> set (group_accesses w k out inp) \<Longrightarrow> inp \<le> a \<and> a < inp + w * k"
proof (induction k arbitrary: out inp)
  case 0
  then show ?case by simp
next
  case (Suc k)
  from Suc.prems have "(inp \<le> a \<and> a < inp + w) \<or> Rd a \<in> set (group_accesses w k (out + w) (inp + w))"
    by auto
  then show ?case
  proof
    assume "inp \<le> a \<and> a < inp + w"
    then show ?thesis by simp
  next
    assume "Rd a \<in> set (group_accesses w k (out + w) (inp + w))"
    then have "inp + w \<le> a \<and> a < inp + w + w * k" by (rule Suc.IH)
    then show ?thesis by simp
  qed
qed


subsection \<open>The entry points by iteration count\<close>

lemma unat_div4: "unat ((n :: 32 word) div 4) = unat n div 4"
  by (simp add: unat_div)

lemma unat_div8: "unat ((n :: 32 word) div 8) = unat n div 8"
  by (simp add: unat_div)

lemma unat_div4_mult: "unat ((n :: 32 word) div 4 * 4) = 4 * (unat n div 4)"
proof -
  have "unat n div 4 * 4 \<le> unat n" by simp
  then have "unat n div 4 * 4 < 2 ^ 32"
    using unsigned_less [of n, where ?'a = nat] by simp
  then show ?thesis
    by (simp add: unat_word_ariths unat_div4)
qed

lemma unat_div8_mult: "unat ((n :: 32 word) div 8 * 8) = 8 * (unat n div 8)"
proof -
  have "unat n div 8 * 8 \<le> unat n" by simp
  then have "unat n div 8 * 8 < 2 ^ 32"
    using unsigned_less [of n, where ?'a = nat] by simp
  then show ?thesis
    by (simp add: unat_word_ariths unat_div8)
qed

lemma main_loop_count:
  "aligned_for st out inp \<Longrightarrow>
   main_loop st out inp min_v max_v n s =
     Inr (out + width st * groups st (unat n), inp + width st * groups st (unat n),
          vec_iter (width st) (groups st (unat n)) out inp min_v max_v s)"
proof (cases st)
  case Generic
  then show ?thesis by (simp add: groups_def)
next
  case A_sse4_1
  assume "aligned_for st out inp"
  with A_sse4_1 show ?thesis
    by (simp add: groups_def a_sse4_1_main_loop_iter [where k = "unat n div 4"] unat_div4)
next
  case U_sse4_1
  then show ?thesis
    by (simp add: groups_def u_sse4_1_main_loop_iter [where k = "unat n div 4"] unat_div4)
next
  case A_avx2
  assume "aligned_for st out inp"
  with A_avx2 show ?thesis
    by (simp add: groups_def a_avx2_main_loop_iter [where k = "unat n div 8"] unat_div8)
next
  case U_avx2
  then show ?thesis
    by (simp add: groups_def u_avx2_main_loop_iter [where k = "unat n div 8"] unat_div8)
qed

lemma run_count:
  "aligned_for st out inp \<Longrightarrow>
   run st out inp min_v max_v n s = Inr (run_by_count st out inp min_v max_v (unat n) s)"
proof (cases st)
  case Generic
  then show ?thesis
    by (simp add: run_by_count_def Let_def groups_def volk_32f_s32f_x2_clamp_32f_generic_def
          scalar_loop_iter)
next
  case A_sse4_1
  assume "aligned_for st out inp"
  with A_sse4_1 show ?thesis
    by (simp add: run_by_count_def Let_def groups_def volk_32f_s32f_x2_clamp_32f_a_sse4_1_def
          a_sse4_1_main_loop_iter [where k = "unat n div 4"] unat_div4 unat_div4_mult
          scalar_loop_iter)
next
  case U_sse4_1
  then show ?thesis
    by (simp add: run_by_count_def Let_def groups_def volk_32f_s32f_x2_clamp_32f_u_sse4_1_def
          u_sse4_1_main_loop_iter [where k = "unat n div 4"] unat_div4 unat_div4_mult
          scalar_loop_iter)
next
  case A_avx2
  assume "aligned_for st out inp"
  with A_avx2 show ?thesis
    by (simp add: run_by_count_def Let_def groups_def volk_32f_s32f_x2_clamp_32f_a_avx2_def
          a_avx2_main_loop_iter [where k = "unat n div 8"] unat_div8 unat_div8_mult
          scalar_loop_iter)
next
  case U_avx2
  then show ?thesis
    by (simp add: run_by_count_def Let_def groups_def volk_32f_s32f_x2_clamp_32f_u_avx2_def
          u_avx2_main_loop_iter [where k = "unat n div 8"] unat_div8 unat_div8_mult
          scalar_loop_iter)
qed

lemma groups_le: "width st * groups st n \<le> n"
  by (simp add: groups_def)

lemma run_by_count_frame:
  "a < out \<or> out + n \<le> a \<Longrightarrow> mem (run_by_count st out inp min_v max_v n s) a = mem s a"
proof -
  assume a: "a < out \<or> out + n \<le> a"
  let ?w = "width st" and ?g = "groups st n"
  have le: "?w * ?g \<le> n" by (rule groups_le)
  have "mem (run_by_count st out inp min_v max_v n s) a
        = mem (vec_iter ?w ?g out inp min_v max_v s) a"
    unfolding run_by_count_def Let_def
    using a le by (intro scalar_iter_frame) arith
  also have "\<dots> = mem s a"
    using a le by (intro vec_iter_frame) arith
  finally show ?thesis .
qed

lemma run_by_count_mem:
  assumes rbw: "read_before_write out inp n" and i: "i < n"
  shows "mem (run_by_count st out inp min_v max_v n s) (out + i)
         = element_result st n i (mem s (inp + i)) min_v max_v"
proof -
  let ?w = "width st" and ?g = "groups st n"
  let ?s1 = "vec_iter ?w ?g out inp min_v max_v s"
  have le: "?w * ?g \<le> n" by (rule groups_le)
  show ?thesis
  proof (cases "i < ?w * ?g")
    case True
    have "mem (run_by_count st out inp min_v max_v n s) (out + i) = mem ?s1 (out + i)"
      unfolding run_by_count_def Let_def
      using True by (intro scalar_iter_frame) arith
    also have "\<dots> = lane_select (mem s (inp + i)) min_v max_v"
      using rbw le True by (rule vec_iter_mem)
    finally show ?thesis
      using True by (simp add: element_result_def)
  next
    case False
    define j where "j = i - ?w * ?g"
    with False have ij: "i = ?w * ?g + j" by simp
    from i ij have j: "j < n - ?w * ?g" by arith
    from rbw le have rbw': "read_before_write (out + ?w * ?g) (inp + ?w * ?g) (n - ?w * ?g)"
      by (auto simp add: read_before_write_def)
    from rbw i ij have out_side: "inp + ?w * ?g + j < out \<or> out + ?w * ?g \<le> inp + ?w * ?g + j"
      by (auto simp add: read_before_write_def)
    have "mem (run_by_count st out inp min_v max_v n s) (out + ?w * ?g + j)
          = clamp_ref (mem ?s1 (inp + ?w * ?g + j)) min_v max_v"
      unfolding run_by_count_def Let_def
      using rbw' j by (rule scalar_iter_mem)
    also have "mem ?s1 (inp + ?w * ?g + j) = mem s (inp + ?w * ?g + j)"
      using out_side by (rule vec_iter_frame)
    finally show ?thesis
      using False by (simp add: element_result_def ij add.assoc)
  qed
qed

lemma run_by_count_trace:
  "\<exists>evs. trace (run_by_count st out inp min_v max_v n s) = trace s @ evs
         \<and> (\<forall>a. Wr a \<in> set evs \<longrightarrow> out \<le> a \<and> a < out + n)
         \<and> (\<forall>a. Rd a \<in> set evs \<longrightarrow> inp \<le> a \<and> a < inp + n)"
proof -
  let ?w = "width st" and ?g = "groups st n"
  let ?s1 = "vec_iter ?w ?g out inp min_v max_v s"
  have le: "?w * ?g \<le> n" by (rule groups_le)
  obtain evs where evs:
      "trace (scalar_iter (n - ?w * ?g) (out + ?w * ?g) (inp + ?w * ?g) min_v max_v ?s1)
         = trace ?s1 @ evs"
      "\<forall>a. Wr a \<in> set evs \<longrightarrow> out + ?w * ?g \<le> a \<and> a < out + ?w * ?g + (n - ?w * ?g)"
      "\<forall>a. Rd a \<in> set evs \<longrightarrow> inp + ?w * ?g \<le> a \<and> a < inp + ?w * ?g + (n - ?w * ?g)"
    using scalar_iter_trace by blast
  let ?all = "group_accesses ?w ?g out inp @ evs"
  have "trace (run_by_count st out inp min_v max_v n s) = trace s @ ?all"
    by (simp add: run_by_count_def Let_def evs(1) vec_iter_trace)
  moreover have "\<forall>a. Wr a \<in> set ?all \<longrightarrow> out \<le> a \<and> a < out + n"
    using evs(2) le group_accesses_Wr [of _ ?w ?g out inp] by fastforce
  moreover have "\<forall>a. Rd a \<in> set ?all \<longrightarrow> inp \<le> a \<and> a < inp + n"
    using evs(3) le group_accesses_Rd [of _ ?w ?g out inp] by fastforce
  ultimately show ?thesis by blast
qed

lemmas float_defs = flt_def fgt_def fle_def is_nan_def is_finite_def exponent_def fraction_def
  float_scaled_def sign_bit_def Let_def

subsection \<open>Every strategy, element by element\<close>

lemma run_element:
  assumes "aligned_for st out inp" and "read_before_write out inp (unat n)" and "i < unat n"
  shows "\<exists>s'. run st out inp min_v max_v n s = Inr s' \<and>
              mem s' (out + i) = element_result st (unat n) i (mem s (inp + i)) min_v max_v"
  using assms by (simp add: run_count run_by_count_mem)

lemma element_result_clamp_ref:
  "\<not> flt max_v min_v \<Longrightarrow> element_result st n i x min_v max_v = clamp_ref x min_v max_v"
  by (simp add: element_result_def lane_select_clamp_ref)

lemma clamp_ref_nan: "is_nan x \<Longrightarrow> clamp_ref x min_v max_v = x"
  by (simp add: clamp_ref_def fgt_def nan_not_flt)

lemma lane_select_nan: "is_nan x \<Longrightarrow> lane_select x min_v max_v = x"
  by (simp add: lane_select_eq nan_not_flt)

lemma generic_count:
  "volk_32f_s32f_x2_clamp_32f_generic out inp min_v max_v n s =
     scalar_iter (unat n) out inp min_v max_v s"
  by (simp add: volk_32f_s32f_x2_clamp_32f_generic_def scalar_loop_iter)

lemma run_zero: "run st out inp min_v max_v 0 s = Inr s"
proof -
  have tail: "scalar_loop out inp min_v max_v 0 0 s = s"
    by (simp add: scalar_loop_iter)
  show ?thesis
    by (cases st)
       (simp_all add: volk_32f_s32f_x2_clamp_32f_generic_def
          volk_32f_s32f_x2_clamp_32f_a_sse4_1_def volk_32f_s32f_x2_clamp_32f_u_sse4_1_def
          volk_32f_s32f_x2_clamp_32f_a_avx2_def volk_32f_s32f_x2_clamp_32f_u_avx2_def
          a_sse4_1_main_loop_stop u_sse4_1_main_loop_stop
          a_avx2_main_loop_stop u_avx2_main_loop_stop tail)
qed

lemma tail_count:
  "st \<noteq> Generic \<Longrightarrow> unat ((n :: 32 word) mod of_nat (width st)) = unat n - width st * groups st (unat n)"
proof -
  assume "st \<noteq> Generic"
  have "unat n - w * (unat n div w) = unat n mod w" for w
    by (simp add: minus_mult_div_eq_mod)
  with \<open>st \<noteq> Generic\<close> show ?thesis
    by (cases st) (simp_all add: groups_def unat_mod)
qed

subsection \<open>The lanes of a main loop under ordered bounds\<close>

lemma vec_iter_clamp_ref:
  assumes "fle min_v max_v" and "read_before_write out inp m" and "w * g \<le> m"
    and "i < w * g"
  shows "mem (vec_iter w g out inp min_v max_v s) (out + i)
         = clamp_ref (mem s (inp + i)) min_v max_v"
proof -
  from assms(1) have "\<not> flt max_v min_v" by (rule fle_not_flt)
  then have "lane_select (mem s (inp + i)) min_v max_v
             = clamp_ref (mem s (inp + i)) min_v max_v"
    by (rule lane_select_clamp_ref)
  with vec_iter_mem [OF assms(2-4), of min_v max_v s] show ?thesis
    by simp
qed

lemma lane_index: "g < q \<Longrightarrow> k < w \<Longrightarrow> w * g + k < w * (q :: nat)"
proof -
  assume "g < q" and "k < w"
  then have "w * g + k < w * g + w" by simp
  also have "\<dots> = w * Suc g" by simp
  also from \<open>g < q\<close> have "\<dots> \<le> w * q"
    by (intro mult_le_mono2) simp
  finally show ?thesis .
qed

subsection \<open>Calls that return\<close>

text \<open>An aligned strategy that enters its main loop with a pointer that is not aligned
  faults in the first iteration; every call that returns is the call by iteration counts.\<close>

lemma a_sse4_1_main_loop_fault:
  "number < q \<Longrightarrow> \<not> (4 dvd out \<and> 4 dvd inp) \<Longrightarrow>
   \<exists>e. a_sse4_1_main_loop out inp vmin vmax q number s = Inl e"
  by (subst a_sse4_1_main_loop.simps)
     (auto simp add: mm_load_ps_def mm_store_ps_def lanes_load_def lanes_store_def
        lanes_loadu_def Let_def)

lemma a_avx2_main_loop_fault:
  "number < q \<Longrightarrow> \<not> (8 dvd out \<and> 8 dvd inp) \<Longrightarrow>
   \<exists>e. a_avx2_main_loop out inp vmin vmax q number s = Inl e"
  by (subst a_avx2_main_loop.simps)
     (auto simp add: mm256_load_ps_def mm256_store_ps_def lanes_load_def lanes_store_def
        lanes_loadu_def Let_def)

lemma run_returns:
  assumes "run st out inp min_v max_v n s = Inr s'"
  shows "s' = run_by_count st out inp min_v max_v (unat n) s"
proof (cases "aligned_for st out inp")
  case True
  with assms show ?thesis by (simp add: run_count)
next
  case False
  then consider (sse) "st = A_sse4_1" "\<not> (4 dvd out \<and> 4 dvd inp)"
    | (avx) "st = A_avx2" "\<not> (8 dvd out \<and> 8 dvd inp)"
    by (cases st) auto
  then show ?thesis
  proof cases
    case sse
    show ?thesis
    proof (cases "0 < n div 4")
      case True
      then obtain e where "a_sse4_1_main_loop out inp (mm_set1_ps min_v) (mm_set1_ps max_v)
                             (n div 4) 0 s = Inl e"
        using a_sse4_1_main_loop_fault [OF _ sse(2)] by blast
      with assms sse(1) show ?thesis
        by (simp add: volk_32f_s32f_x2_clamp_32f_a_sse4_1_def)
    next
      case False
      then have z: "n div 4 = 0" by (simp add: word_greater_zero_iff)
      then have "unat n div 4 = 0"
        using unat_div4 [of n] by simp
      with assms sse(1) z show ?thesis
        by (simp add: volk_32f_s32f_x2_clamp_32f_a_sse4_1_def a_sse4_1_main_loop_stop
              scalar_loop_iter run_by_count_def groups_def)
    qed
  next
    case avx
    show ?thesis
    proof (cases "0 < n div 8")
      case True
      then obtain e where "a_avx2_main_loop out inp (mm256_set1_ps min_v) (mm256_set1_ps max_v)
                             (n div 8) 0 s = Inl e"
        using a_avx2_main_loop_fault [OF _ avx(2)] by blast
      with assms avx(1) show ?thesis
        by (simp add: volk_32f_s32f_x2_clamp_32f_a_avx2_def)
    next
      case False
      then have z: "n div 8 = 0" by (simp add: word_greater_zero_iff)
      then have "unat n div 8 = 0"
        using unat_div8 [of n] by simp
      with assms avx(1) z show ?thesis
        by (simp add: volk_32f_s32f_x2_clamp_32f_a_avx2_def a_avx2_main_loop_stop
              scalar_loop_iter run_by_count_def groups_def)
    qed
  qed
qed

subsection \<open>The model on the documented examples\<close>

text \<open>The order of some patterns: \<open>-2.0 < -1.0\<close>; \<open>-0\<close> and \<open>+0\<close> are equal; the largest
  finite value is below \<open>+infinity\<close> and \<open>-infinity\<close> below the smallest; nothing is below or
  above a NaN.\<close>

lemma flt_examples:
  "flt 0xC0000000 0xBF800000 \<and> \<not> flt 0x80000000 0 \<and> \<not> flt 0 0x80000000 \<and>
   flt 0x7F7FFFFF 0x7F800000 \<and> flt 0xFF800000 0xFF7FFFFF \<and>
   \<not> flt 0x7FC00000 0 \<and> \<not> flt 0 0x7FC00000 \<and> \<not> flt 0x7FC00000 0x7FC00000"
  by (simp add: float_defs)

text \<open>The header's example, \<open>volk_32f_s32f_x2_clamp_32f(y, x, -1.5f, 1.5f, 4)\<close> with
  \<open>x = {-2.f, -1.f, 1.f, 2.f}\<close>, expects \<open>y = {-1.5f, -1.f, 1.f, 1.5f}\<close>.  Here \<open>y\<close> is at
  cell 8; with 8 elements the four zeros after \<open>x\<close> are clamped too.\<close>

lemma doc_example_generic:
  "map (mem (volk_32f_s32f_x2_clamp_32f_generic 8 0 0xBFC00000 0x3FC00000 4 doc_example))
     [8..<12] = [0xBFC00000, 0xBF800000, 0x3F800000, 0x3FC00000]"
  by code_simp

lemma doc_example_u_sse4_1:
  "map (mem (volk_32f_s32f_x2_clamp_32f_u_sse4_1 8 0 0xBFC00000 0x3FC00000 4 doc_example))
     [8..<12] = [0xBFC00000, 0xBF800000, 0x3F800000, 0x3FC00000]"
  by code_simp

lemma doc_example_a_sse4_1:
  "(case volk_32f_s32f_x2_clamp_32f_a_sse4_1 8 0 0xBFC00000 0x3FC00000 4 doc_example of
      Inl e \<Rightarrow> [] | Inr s' \<Rightarrow> map (mem s') [8..<12])
   = [0xBFC00000, 0xBF800000, 0x3F800000, 0x3FC00000]"
  by code_simp

lemma doc_example_u_avx2:
  "map (mem (volk_32f_s32f_x2_clamp_32f_u_avx2 8 0 0xBFC00000 0x3FC00000 8 doc_example))
     [8..<16] = [0xBFC00000, 0xBF800000, 0x3F800000, 0x3FC00000, 0, 0, 0, 0]"
  by code_simp

lemma doc_example_a_avx2:
  "(case volk_32f_s32f_x2_clamp_32f_a_avx2 8 0 0xBFC00000 0x3FC00000 8 doc_example of
      Inl e \<Rightarrow> [] | Inr s' \<Rightarrow> map (mem s') [8..<16])
   = [0xBFC00000, 0xBF800000, 0x3F800000, 0x3FC00000, 0, 0, 0, 0]"
  by code_simp

text \<open>The specification's example \<open>input = [NaN, 5.0]\<close>, \<open>min = 0.0\<close>, \<open>max = 1.0\<close> expects
  \<open>[NaN, 1.0]\<close>.\<close>

lemma nan_example_generic:
  "map (mem (volk_32f_s32f_x2_clamp_32f_generic 4 0 0 0x3F800000 2 nan_example)) [4..<6]
     = [0x7FC00000, 0x3F800000]"
  by code_simp

lemma nan_example_u_sse4_1:
  "map (mem (volk_32f_s32f_x2_clamp_32f_u_sse4_1 4 0 0 0x3F800000 4 nan_example)) [4..<8]
     = [0x7FC00000, 0x3F800000, 0, 0]"
  by code_simp

text \<open>An aligned strategy that reaches its main loop with a pointer that is not aligned:
  the load from cell 0 passes, the store to cell 3 is reported.\<close>

lemma misaligned_store_reported:
  "(case volk_32f_s32f_x2_clamp_32f_a_sse4_1 3 0 0 0x3F800000 5 ones of
      Inl e \<Rightarrow> e = Misaligned 3 | Inr s' \<Rightarrow> False)"
  by code_simp

text \<open>The accesses of the 4-wide strategy on 5 elements, in order: one group of the main
  loop, then one scalar element, whose input is read twice (it is not above \<open>max\<close>, it is
  below \<open>min\<close>).\<close>

lemma trace_example:
  "trace (volk_32f_s32f_x2_clamp_32f_u_sse4_1 8 0 0x40000000 0x40000000 5 ones)
     = [Rd 0, Rd 1, Rd 2, Rd 3, Wr 8, Wr 9, Wr 10, Wr 11, Rd 4, Rd 4, Wr 12]"
  by code_simp

section \<open>The claims\<close>

text \<open>
  C1.  The scalar reference strategy writes, for every index \<open>i\<close> below \<open>num_points\<close>,
  \<open>output[i] = (input[i] > max ? max : (input[i] < min ? min : input[i]))\<close>, the test
  against \<open>max\<close> first.  \<open>input[i]\<close> is the content of the input buffer at the call; the
  buffers are disjoint, the same, or such that no input cell is written before it is read.
\<close>

theorem generic_clamps_each_element:
  assumes "read_before_write out inp (unat num_points)" and "i < unat num_points"
  shows "mem (volk_32f_s32f_x2_clamp_32f_generic out inp min_v max_v num_points s) (out + i)
         = (if fgt (mem s (inp + i)) max_v then max_v
            else if flt (mem s (inp + i)) min_v then min_v
            else mem s (inp + i))"
proof -
  have "mem (volk_32f_s32f_x2_clamp_32f_generic out inp min_v max_v num_points s) (out + i)
        = mem (scalar_iter (unat num_points) out inp min_v max_v s) (out + i)"
    by (simp add: volk_32f_s32f_x2_clamp_32f_generic_def scalar_loop_iter)
  also have "\<dots> = clamp_ref (mem s (inp + i)) min_v max_v"
    using assms by (rule scalar_iter_mem)
  finally show ?thesis
    by (simp add: clamp_ref_def)
qed

theorem generic_clamps_each_element_witness:
  "read_before_write 4 0 (unat (4 :: 32 word)) \<and> 3 < unat (4 :: 32 word) \<and>
   mem (volk_32f_s32f_x2_clamp_32f_generic 4 0 0xBFC00000 0x3FC00000 4 doc_example) (4 + 3)
     = 0x3FC00000"
  using generic_clamps_each_element [of 4 0 4 3 "0xBFC00000" "0x3FC00000" doc_example]
  by (simp add: read_before_write_def doc_example_def float_defs)

text \<open>
  C2.  As stated, for every pair of bounds, the claim fails: with the bounds of the
  documentation's example exchanged (\<open>min = 1.5\<close>, \<open>max = -1.5\<close>) the input \<open>-1.0\<close> is both
  above \<open>max\<close> and below \<open>min\<close>; the scalar strategy answers \<open>max\<close>, the main loop of a vector
  strategy answers \<open>min\<close>.
\<close>

theorem strategies_differ_counterexample:
  "is_finite (mem doc_example 0) \<and> is_finite (mem doc_example 1) \<and>
   is_finite (mem doc_example 2) \<and> is_finite (mem doc_example 3) \<and>
   mem (volk_32f_s32f_x2_clamp_32f_u_sse4_1 4 0 0x3FC00000 0xBFC00000 4 doc_example) 5
     = 0x3FC00000 \<and>
   mem (volk_32f_s32f_x2_clamp_32f_generic 4 0 0x3FC00000 0xBFC00000 4 doc_example) 5
     = 0xBFC00000"
  by code_simp

text \<open>
  C2, amended.  For every \<open>num_points\<close>, every input array and every pair of bounds for
  which \<open>max < min\<close> does not hold (in particular whenever \<open>min <= max\<close>), every strategy
  returns and leaves the same memory as the scalar reference strategy, hence a bit-identical
  output array.  The aligned strategies are called with aligned pointers.
\<close>

theorem strategies_agree:
  assumes "\<not> flt max_v min_v" and "aligned_for st out inp"
    and "read_before_write out inp (unat n)"
  shows "\<exists>s'. run st out inp min_v max_v n s = Inr s' \<and>
              mem s' = mem (volk_32f_s32f_x2_clamp_32f_generic out inp min_v max_v n s)"
proof -
  let ?s' = "run_by_count st out inp min_v max_v (unat n) s"
  let ?g = "volk_32f_s32f_x2_clamp_32f_generic out inp min_v max_v n s"
  have "mem ?s' a = mem ?g a" for a
  proof (cases "a < out \<or> out + unat n \<le> a")
    case True
    then have "mem ?s' a = mem s a"
      by (rule run_by_count_frame)
    moreover from True have "mem ?g a = mem s a"
      unfolding generic_count by (rule scalar_iter_frame)
    ultimately show ?thesis by simp
  next
    case False
    define i where "i = a - out"
    with False have a: "a = out + i" and i: "i < unat n" by auto
    have "mem ?s' (out + i) = element_result st (unat n) i (mem s (inp + i)) min_v max_v"
      using assms(3) i by (rule run_by_count_mem)
    moreover have "mem ?g (out + i) = clamp_ref (mem s (inp + i)) min_v max_v"
      unfolding generic_count using assms(3) i by (rule scalar_iter_mem)
    ultimately show ?thesis
      using assms(1) by (simp add: a element_result_clamp_ref)
  qed
  then have "mem ?s' = mem ?g" by (rule ext)
  with assms(2) show ?thesis
    by (simp add: run_count)
qed

theorem strategies_agree_witness:
  "\<not> flt 0x3FC00000 0xBFC00000 \<and> aligned_for A_sse4_1 4 0 \<and>
   read_before_write 4 0 (unat (4 :: 32 word)) \<and>
   (\<exists>s'. run A_sse4_1 4 0 0xBFC00000 0x3FC00000 4 doc_example = Inr s' \<and>
         mem s' = mem (volk_32f_s32f_x2_clamp_32f_generic 4 0 0xBFC00000 0x3FC00000 4
                         doc_example))"
  using strategies_agree [of "0x3FC00000" "0xBFC00000" A_sse4_1 4 0 4 doc_example]
  by (simp add: read_before_write_def float_defs)

text \<open>
  C3.  Under \<open>min <= max\<close>, the two selects of the vector strategies (both masks computed
  from the loaded register, lanes above \<open>max\<close> replaced by \<open>max\<close>, then lanes below \<open>min\<close>
  replaced by \<open>min\<close>) yield for every lane the value of the scalar ternary expression: each
  of the four main loops, started as its entry point starts it, runs to its end, and lane
  \<open>k\<close> of iteration \<open>g\<close> leaves in output cell \<open>W * g + k\<close> the scalar clamp of input
  cell \<open>W * g + k\<close>.  The aligned loops are given aligned pointers.
\<close>

theorem two_stage_select_is_clamp:
  assumes "fle min_v max_v" and "read_before_write out inp (unat n)"
  shows "(4 dvd out \<and> 4 dvd inp \<longrightarrow>
            (\<exists>s'. a_sse4_1_main_loop out inp (mm_set1_ps min_v) (mm_set1_ps max_v)
                     (n div 4) 0 s
                   = Inr (out + 4 * (unat n div 4), inp + 4 * (unat n div 4), s') \<and>
                  (\<forall>g < unat n div 4. \<forall>k < 4.
                     mem s' (out + (4 * g + k))
                     = clamp_ref (mem s (inp + (4 * g + k))) min_v max_v))) \<and>
         (8 dvd out \<and> 8 dvd inp \<longrightarrow>
            (\<exists>s'. a_avx2_main_loop out inp (mm256_set1_ps min_v) (mm256_set1_ps max_v)
                     (n div 8) 0 s
                   = Inr (out + 8 * (unat n div 8), inp + 8 * (unat n div 8), s') \<and>
                  (\<forall>g < unat n div 8. \<forall>k < 8.
                     mem s' (out + (8 * g + k))
                     = clamp_ref (mem s (inp + (8 * g + k))) min_v max_v))) \<and>
         (\<exists>s'. u_sse4_1_main_loop out inp (mm_set1_ps min_v) (mm_set1_ps max_v) (n div 4) 0 s
                = (out + 4 * (unat n div 4), inp + 4 * (unat n div 4), s') \<and>
               (\<forall>g < unat n div 4. \<forall>k < 4.
                  mem s' (out + (4 * g + k))
                  = clamp_ref (mem s (inp + (4 * g + k))) min_v max_v)) \<and>
         (\<exists>s'. u_avx2_main_loop out inp (mm256_set1_ps min_v) (mm256_set1_ps max_v)
                  (n div 8) 0 s
                = (out + 8 * (unat n div 8), inp + 8 * (unat n div 8), s') \<and>
               (\<forall>g < unat n div 8. \<forall>k < 8.
                  mem s' (out + (8 * g + k))
                  = clamp_ref (mem s (inp + (8 * g + k))) min_v max_v))"
proof -
  have lanes: "\<forall>g < unat n div w. \<forall>k < w.
                 mem (vec_iter w (unat n div w) out inp min_v max_v s) (out + (w * g + k))
                 = clamp_ref (mem s (inp + (w * g + k))) min_v max_v" for w
  proof (intro allI impI)
    fix g k
    assume "g < unat n div w" and "k < w"
    then have "w * g + k < w * (unat n div w)" by (rule lane_index)
    moreover have "w * (unat n div w) \<le> unat n" by simp
    ultimately show "mem (vec_iter w (unat n div w) out inp min_v max_v s) (out + (w * g + k))
                     = clamp_ref (mem s (inp + (w * g + k))) min_v max_v"
      using assms by (intro vec_iter_clamp_ref [where m = "unat n"]) simp_all
  qed
  have a4: "4 dvd out \<Longrightarrow> 4 dvd inp \<Longrightarrow>
            a_sse4_1_main_loop out inp (mm_set1_ps min_v) (mm_set1_ps max_v) (n div 4) 0 s
            = Inr (out + 4 * (unat n div 4), inp + 4 * (unat n div 4),
                   vec_iter 4 (unat n div 4) out inp min_v max_v s)"
    by (rule a_sse4_1_main_loop_iter) (simp_all add: unat_div4)
  have a8: "8 dvd out \<Longrightarrow> 8 dvd inp \<Longrightarrow>
            a_avx2_main_loop out inp (mm256_set1_ps min_v) (mm256_set1_ps max_v) (n div 8) 0 s
            = Inr (out + 8 * (unat n div 8), inp + 8 * (unat n div 8),
                   vec_iter 8 (unat n div 8) out inp min_v max_v s)"
    by (rule a_avx2_main_loop_iter) (simp_all add: unat_div8)
  have u4: "u_sse4_1_main_loop out inp (mm_set1_ps min_v) (mm_set1_ps max_v) (n div 4) 0 s
            = (out + 4 * (unat n div 4), inp + 4 * (unat n div 4),
               vec_iter 4 (unat n div 4) out inp min_v max_v s)"
    by (rule u_sse4_1_main_loop_iter) (simp add: unat_div4)
  have u8: "u_avx2_main_loop out inp (mm256_set1_ps min_v) (mm256_set1_ps max_v) (n div 8) 0 s
            = (out + 8 * (unat n div 8), inp + 8 * (unat n div 8),
               vec_iter 8 (unat n div 8) out inp min_v max_v s)"
    by (rule u_avx2_main_loop_iter) (simp add: unat_div8)
  show ?thesis
    using a4 a8 u4 u8 lanes [of 4] lanes [of 8] by blast
qed

theorem two_stage_select_is_clamp_witness:
  "\<exists>s4 s8.
     a_sse4_1_main_loop 8 0 (mm_set1_ps 0xBFC00000) (mm_set1_ps 0x3FC00000) (8 div 4) 0
       doc_example = Inr (8 + 4 * 2, 0 + 4 * 2, s4) \<and>
     mem s4 (8 + (4 * 0 + 3)) = 0x3FC00000 \<and>
     a_avx2_main_loop 8 0 (mm256_set1_ps 0xBFC00000) (mm256_set1_ps 0x3FC00000) (8 div 8) 0
       doc_example = Inr (8 + 8 * 1, 0 + 8 * 1, s8) \<and>
     mem s8 (8 + (8 * 0 + 0)) = 0xBFC00000"
proof -
  note inst = two_stage_select_is_clamp [of "0xBFC00000" "0x3FC00000" 8 0 8 doc_example]
  have h: "fle 0xBFC00000 0x3FC00000" "read_before_write 8 0 (unat (8 :: 32 word))"
    by (simp_all add: read_before_write_def float_defs)
  have al: "4 dvd (8 :: nat) \<and> 4 dvd (0 :: nat)" "8 dvd (8 :: nat) \<and> 8 dvd (0 :: nat)"
    by simp_all
  have c3: "clamp_ref (mem doc_example (0 + (4 * 0 + 3))) 0xBFC00000 0x3FC00000 = 0x3FC00000"
    and c0: "clamp_ref (mem doc_example (0 + (8 * 0 + 0))) 0xBFC00000 0x3FC00000 = 0xBFC00000"
    by (simp_all add: clamp_ref_def doc_example_def float_defs)
  from inst [OF h] al obtain s4 where
      l4: "a_sse4_1_main_loop 8 0 (mm_set1_ps 0xBFC00000) (mm_set1_ps 0x3FC00000) (8 div 4) 0
             doc_example
           = Inr (8 + 4 * (unat (8 :: 32 word) div 4), 0 + 4 * (unat (8 :: 32 word) div 4), s4)"
      and e4: "\<forall>g < unat (8 :: 32 word) div 4. \<forall>k < 4.
                 mem s4 (8 + (4 * g + k))
                 = clamp_ref (mem doc_example (0 + (4 * g + k))) 0xBFC00000 0x3FC00000"
    by blast
  from inst [OF h] al obtain s8 where
      l8: "a_avx2_main_loop 8 0 (mm256_set1_ps 0xBFC00000) (mm256_set1_ps 0x3FC00000)
             (8 div 8) 0 doc_example
           = Inr (8 + 8 * (unat (8 :: 32 word) div 8), 0 + 8 * (unat (8 :: 32 word) div 8), s8)"
      and e8: "\<forall>g < unat (8 :: 32 word) div 8. \<forall>k < 8.
                 mem s8 (8 + (8 * g + k))
                 = clamp_ref (mem doc_example (0 + (8 * g + k))) 0xBFC00000 0x3FC00000"
    by blast
  have "mem s4 (8 + (4 * 0 + 3)) = 0x3FC00000"
    using e4 [rule_format, of 0 3] c3 by simp
  moreover have "mem s8 (8 + (8 * 0 + 0)) = 0xBFC00000"
    using e8 [rule_format, of 0 0] c0 by simp
  moreover from l4 have "a_sse4_1_main_loop 8 0 (mm_set1_ps 0xBFC00000) (mm_set1_ps 0x3FC00000)
                           (8 div 4) 0 doc_example = Inr (8 + 4 * 2, 0 + 4 * 2, s4)"
    by simp
  moreover from l8 have "a_avx2_main_loop 8 0 (mm256_set1_ps 0xBFC00000)
                           (mm256_set1_ps 0x3FC00000) (8 div 8) 0 doc_example
                         = Inr (8 + 8 * 1, 0 + 8 * 1, s8)"
    by simp
  ultimately show ?thesis by blast
qed

text \<open>
  C4.  For every strategy and every index \<open>i\<close>: if \<open>input[i]\<close> is a NaN, then both
  comparisons, against \<open>max\<close> and against \<open>min\<close>, are false, and \<open>output[i]\<close> is that NaN,
  copied unchanged; it is never replaced by a bound.
\<close>

theorem nan_passes_through:
  assumes "aligned_for st out inp" and "read_before_write out inp (unat n)"
    and "i < unat n" and "is_nan (mem s (inp + i))"
  shows "\<not> fgt (mem s (inp + i)) max_v \<and> \<not> flt (mem s (inp + i)) min_v \<and>
         (\<exists>s'. run st out inp min_v max_v n s = Inr s' \<and>
               mem s' (out + i) = mem s (inp + i) \<and> is_nan (mem s' (out + i)))"
proof -
  let ?x = "mem s (inp + i)"
  have "element_result st (unat n) i ?x min_v max_v = ?x"
    using assms(4) by (simp add: element_result_def clamp_ref_nan lane_select_nan)
  with run_element [OF assms(1-3), of min_v max_v s] assms(4) show ?thesis
    by (auto simp add: fgt_def nan_not_flt)
qed

theorem nan_passes_through_witness:
  "aligned_for A_sse4_1 4 0 \<and> read_before_write 4 0 (unat (4 :: 32 word)) \<and>
   0 < unat (4 :: 32 word) \<and> is_nan (mem nan_example (0 + 0)) \<and>
   (\<exists>s'. run A_sse4_1 4 0 0 0x3F800000 4 nan_example = Inr s' \<and> mem s' (4 + 0) = 0x7FC00000)"
  using nan_passes_through [of A_sse4_1 4 0 4 0 nan_example "0x3F800000" 0]
  by (auto simp add: read_before_write_def nan_example_def float_defs)

text \<open>
  C5.  As stated, for any bounds, the last part of the claim fails: with \<open>min = 2.0\<close> and
  \<open>max = 0.0\<close>, five elements \<open>1.0\<close> and the 4-wide strategy, element 0 (main loop) becomes
  \<open>min\<close> and element 4 (remainder) becomes \<open>max\<close>, though both hold the same input.
\<close>

theorem tail_differs_counterexample:
  "mem ones (0 + 0) = mem ones (0 + 4) \<and>
   mem (volk_32f_s32f_x2_clamp_32f_u_sse4_1 5 0 0x40000000 0 5 ones) (5 + 0) = 0x40000000 \<and>
   mem (volk_32f_s32f_x2_clamp_32f_u_sse4_1 5 0 0x40000000 0 5 ones) (5 + 4) = 0"
  by code_simp

text \<open>
  C5, amended.  For every vector strategy of width \<open>W\<close> and every \<open>num_points\<close>, the main
  loop runs exactly \<open>num_points div W\<close> iterations, each reading \<open>W\<close> input cells and writing
  \<open>W\<close> output cells, and advances both pointers by \<open>W * (num_points div W)\<close>; the remaining
  \<open>num_points mod W\<close> elements are processed by the scalar reference strategy itself, from
  there.  Provided \<open>max < min\<close> does not hold (in particular whenever \<open>min <= max\<close>), every
  element, of the main loop or of the remainder, is clamped by the same scalar formula.
\<close>

theorem main_loop_then_scalar_tail:
  assumes "st \<noteq> Generic" and "aligned_for st out inp"
  shows "\<exists>s_main s'.
           main_loop st out inp min_v max_v n s =
             Inr (out + width st * (unat n div width st),
                  inp + width st * (unat n div width st), s_main) \<and>
           trace s_main = trace s @ group_accesses (width st) (unat n div width st) out inp \<and>
           run st out inp min_v max_v n s = Inr s' \<and>
           s' = volk_32f_s32f_x2_clamp_32f_generic
                  (out + width st * (unat n div width st))
                  (inp + width st * (unat n div width st))
                  min_v max_v (n mod of_nat (width st)) s_main \<and>
           (\<not> flt max_v min_v \<and> read_before_write out inp (unat n) \<longrightarrow>
              (\<forall>i < unat n. mem s' (out + i) = clamp_ref (mem s (inp + i)) min_v max_v))"
proof -
  let ?w = "width st" and ?g = "unat n div width st"
  let ?s_main = "vec_iter ?w ?g out inp min_v max_v s"
  let ?s' = "run_by_count st out inp min_v max_v (unat n) s"
  from assms(1) have g: "groups st (unat n) = ?g"
    by (simp add: groups_def)
  have "main_loop st out inp min_v max_v n s = Inr (out + ?w * ?g, inp + ?w * ?g, ?s_main)"
    using main_loop_count [OF assms(2), of min_v max_v n s] by (simp only: g)
  moreover have "trace ?s_main = trace s @ group_accesses ?w ?g out inp"
    by (rule vec_iter_trace)
  moreover have "run st out inp min_v max_v n s = Inr ?s'"
    using assms(2) by (rule run_count)
  moreover have "?s' = volk_32f_s32f_x2_clamp_32f_generic (out + ?w * ?g) (inp + ?w * ?g)
                         min_v max_v (n mod of_nat ?w) ?s_main"
    using tail_count [OF assms(1), of n]
    by (simp add: generic_count run_by_count_def Let_def g)
  moreover have "\<forall>i < unat n. mem ?s' (out + i) = clamp_ref (mem s (inp + i)) min_v max_v"
    if "\<not> flt max_v min_v" and "read_before_write out inp (unat n)"
    using that by (simp add: run_by_count_mem element_result_clamp_ref)
  ultimately show ?thesis
    by blast
qed

theorem main_loop_then_scalar_tail_witness:
  "\<exists>s_main s'.
      main_loop U_sse4_1 5 0 0 0x3F000000 5 ones = Inr (5 + 4 * 1, 0 + 4 * 1, s_main) \<and>
      trace s_main = trace ones @ group_accesses 4 1 5 0 \<and>
      run U_sse4_1 5 0 0 0x3F000000 5 ones = Inr s' \<and>
      s' = volk_32f_s32f_x2_clamp_32f_generic (5 + 4 * 1) (0 + 4 * 1) 0 0x3F000000 1 s_main \<and>
      mem s' (5 + 4) = 0x3F000000"
proof -
  have "U_sse4_1 \<noteq> Generic" and "aligned_for U_sse4_1 5 0"
    and h: "\<not> flt 0x3F000000 0 \<and> read_before_write 5 0 (unat (5 :: 32 word))"
    and c: "clamp_ref (mem ones (0 + 4)) 0 0x3F000000 = 0x3F000000"
    by (simp_all add: read_before_write_def ones_def clamp_ref_def float_defs)
  then obtain s_main s' where
      "main_loop U_sse4_1 5 0 0 0x3F000000 5 ones =
         Inr (5 + width U_sse4_1 * (unat (5 :: 32 word) div width U_sse4_1),
              0 + width U_sse4_1 * (unat (5 :: 32 word) div width U_sse4_1), s_main)"
      "trace s_main = trace ones @
         group_accesses (width U_sse4_1) (unat (5 :: 32 word) div width U_sse4_1) 5 0"
      "run U_sse4_1 5 0 0 0x3F000000 5 ones = Inr s'"
      "s' = volk_32f_s32f_x2_clamp_32f_generic
              (5 + width U_sse4_1 * (unat (5 :: 32 word) div width U_sse4_1))
              (0 + width U_sse4_1 * (unat (5 :: 32 word) div width U_sse4_1))
              0 0x3F000000 (5 mod of_nat (width U_sse4_1)) s_main"
      and every: "\<forall>i < unat (5 :: 32 word).
                    mem s' (5 + i) = clamp_ref (mem ones (0 + i)) 0 0x3F000000"
    using main_loop_then_scalar_tail [of U_sse4_1 5 0 0 "0x3F000000" 5 ones]
    by blast
  moreover have "mem s' (5 + 4) = 0x3F000000"
    using every [rule_format, of 4] c by simp
  ultimately show ?thesis
    by (simp del: run.simps main_loop.simps)
qed

text \<open>
  C6.  For every strategy, a call whose output buffer is its input buffer leaves in that
  buffer what a call with disjoint buffers, on the same input values, leaves in its output
  buffer.
\<close>

theorem in_place_same_as_disjoint:
  assumes "aligned_for st p p" and "aligned_for st out inp"
    and "inp + unat n \<le> out \<or> out + unat n \<le> inp"
    and "\<forall>i < unat n. mem s1 (p + i) = mem s2 (inp + i)"
  shows "\<exists>r1 r2. run st p p min_v max_v n s1 = Inr r1 \<and>
                 run st out inp min_v max_v n s2 = Inr r2 \<and>
                 (\<forall>i < unat n. mem r1 (p + i) = mem r2 (out + i))"
proof -
  let ?r1 = "run_by_count st p p min_v max_v (unat n) s1"
  let ?r2 = "run_by_count st out inp min_v max_v (unat n) s2"
  have same: "read_before_write p p (unat n)"
    by (simp add: read_before_write_def)
  have disj: "read_before_write out inp (unat n)"
    using assms(3) by (auto simp add: read_before_write_def)
  have "mem ?r1 (p + i) = mem ?r2 (out + i)" if i: "i < unat n" for i
  proof -
    have "mem ?r1 (p + i) = element_result st (unat n) i (mem s1 (p + i)) min_v max_v"
      using same i by (rule run_by_count_mem)
    moreover have "mem ?r2 (out + i) = element_result st (unat n) i (mem s2 (inp + i)) min_v max_v"
      using disj i by (rule run_by_count_mem)
    ultimately show ?thesis
      using assms(4) i by simp
  qed
  with assms(1,2) show ?thesis
    by (simp add: run_count)
qed

theorem in_place_same_as_disjoint_witness:
  "\<exists>r1 r2. run A_avx2 0 0 0xBFC00000 0x3FC00000 4 doc_example = Inr r1 \<and>
           run A_avx2 8 0 0xBFC00000 0x3FC00000 4 doc_example = Inr r2 \<and>
           mem r1 (0 + 3) = mem r2 (8 + 3)"
proof -
  have "aligned_for A_avx2 0 0" and "aligned_for A_avx2 8 0"
    and "0 + unat (4 :: 32 word) \<le> 8 \<or> 8 + unat (4 :: 32 word) \<le> 0"
    and "\<forall>i < unat (4 :: 32 word). mem doc_example (0 + i) = mem doc_example (0 + i)"
    by simp_all
  then obtain r1 r2 where "run A_avx2 0 0 0xBFC00000 0x3FC00000 4 doc_example = Inr r1"
      and "run A_avx2 8 0 0xBFC00000 0x3FC00000 4 doc_example = Inr r2"
      and "\<forall>i < unat (4 :: 32 word). mem r1 (0 + i) = mem r2 (8 + i)"
    using in_place_same_as_disjoint [of A_avx2 0 8 0 4 doc_example doc_example
            "0xBFC00000" "0x3FC00000"]
    by blast
  then show ?thesis by simp
qed

text \<open>
  C7.  As stated, for any bounds, the claim fails: with \<open>min = 2.0\<close> and \<open>max = 1.5\<close> the
  input \<open>2.0\<close>, bit for bit \<open>min\<close>, is above \<open>max\<close> and is replaced by \<open>max\<close>.
\<close>

theorem boundary_equality_counterexample:
  "mem doc_example (0 + 3) = 0x40000000 \<and>
   mem (volk_32f_s32f_x2_clamp_32f_generic 4 0 0x40000000 0x3FC00000 4 doc_example) (4 + 3)
     = 0x3FC00000 \<and>
   mem (volk_32f_s32f_x2_clamp_32f_generic 4 0 0x40000000 0x3FC00000 4 doc_example) (4 + 3)
     \<noteq> mem doc_example (0 + 3)"
  by code_simp

text \<open>
  C7, amended.  For every strategy and every index \<open>i\<close>, provided \<open>max < min\<close> does not hold
  (in particular whenever \<open>min <= max\<close>): if \<open>input[i]\<close> is bit for bit \<open>min\<close> or bit for bit
  \<open>max\<close>, then \<open>output[i]\<close> is \<open>input[i]\<close>, unchanged.
\<close>

theorem boundary_values_unchanged:
  assumes "\<not> flt max_v min_v" and "aligned_for st out inp"
    and "read_before_write out inp (unat n)" and "i < unat n"
    and "mem s (inp + i) = min_v \<or> mem s (inp + i) = max_v"
  shows "\<exists>s'. run st out inp min_v max_v n s = Inr s' \<and> mem s' (out + i) = mem s (inp + i)"
proof -
  let ?x = "mem s (inp + i)"
  have "clamp_ref ?x min_v max_v = ?x"
    using assms(1,5) by (auto simp add: clamp_ref_def fgt_def flt_irrefl)
  then have "element_result st (unat n) i ?x min_v max_v = ?x"
    using assms(1) by (simp add: element_result_clamp_ref)
  with run_element [OF assms(2-4), of min_v max_v s] show ?thesis
    by simp
qed

theorem boundary_values_unchanged_witness:
  "\<not> flt 0x40000000 0xC0000000 \<and> aligned_for U_sse4_1 4 0 \<and>
   read_before_write 4 0 (unat (4 :: 32 word)) \<and> 3 < unat (4 :: 32 word) \<and>
   (mem doc_example (0 + 3) = 0xC0000000 \<or> mem doc_example (0 + 3) = 0x40000000) \<and>
   (\<exists>s'. run U_sse4_1 4 0 0xC0000000 0x40000000 4 doc_example = Inr s' \<and>
         mem s' (4 + 3) = 0x40000000)"
  using boundary_values_unchanged [of "0x40000000" "0xC0000000" U_sse4_1 4 0 4 3 doc_example]
  by (simp add: read_before_write_def doc_example_def float_defs
        del: run.simps)

text \<open>
  C8.  With \<open>min > max\<close>, the scalar reference strategy writes \<open>max\<close> for every input that is
  at least \<open>min\<close> and at least \<open>max\<close>: the test against \<open>max\<close> comes first and succeeds.
\<close>

theorem inverted_bounds_give_max:
  assumes "fgt min_v max_v" and "read_before_write out inp (unat n)" and "i < unat n"
    and "fle min_v (mem s (inp + i))" and "fle max_v (mem s (inp + i))"
  shows "mem (volk_32f_s32f_x2_clamp_32f_generic out inp min_v max_v n s) (out + i) = max_v"
proof -
  let ?x = "mem s (inp + i)"
  from assms(1,4) have "fgt ?x max_v"
    by (auto simp add: fgt_def flt_def fle_def)
  moreover have "mem (volk_32f_s32f_x2_clamp_32f_generic out inp min_v max_v n s) (out + i)
                 = clamp_ref ?x min_v max_v"
    unfolding generic_count using assms(2,3) by (rule scalar_iter_mem)
  ultimately show ?thesis
    by (simp add: clamp_ref_def)
qed

theorem inverted_bounds_give_max_witness:
  "fgt 0x3F800000 0xBF800000 \<and> read_before_write 4 0 (unat (4 :: 32 word)) \<and>
   3 < unat (4 :: 32 word) \<and> fle 0x3F800000 (mem doc_example (0 + 3)) \<and>
   fle 0xBF800000 (mem doc_example (0 + 3)) \<and>
   mem (volk_32f_s32f_x2_clamp_32f_generic 4 0 0x3F800000 0xBF800000 4 doc_example) (4 + 3)
     = 0xBF800000"
  using inverted_bounds_give_max [of "0x3F800000" "0xBF800000" 4 0 4 3 doc_example]
  by (simp add: read_before_write_def doc_example_def float_defs)

text \<open>
  C9.  For every strategy: a call with \<open>num_points = 0\<close> returns the machine as it was, with
  no read and no write added to the trace.  A call with any \<open>num_points\<close> returns when the
  pointers are aligned as the strategy asks, and every call that returns has written only
  output cells of index below \<open>num_points\<close>, has read only input cells of index below
  \<open>num_points\<close>, and has left every cell outside the output buffer as it was.
\<close>

theorem accesses_stay_below_num_points:
  "run st out inp min_v max_v 0 s = Inr s \<and>
   (aligned_for st out inp \<longrightarrow> (\<exists>s'. run st out inp min_v max_v n s = Inr s')) \<and>
   (\<forall>s'. run st out inp min_v max_v n s = Inr s' \<longrightarrow>
      (\<exists>evs. trace s' = trace s @ evs \<and>
             (\<forall>a. Wr a \<in> set evs \<longrightarrow> out \<le> a \<and> a < out + unat n) \<and>
             (\<forall>a. Rd a \<in> set evs \<longrightarrow> inp \<le> a \<and> a < inp + unat n)) \<and>
      (\<forall>a. a < out \<or> out + unat n \<le> a \<longrightarrow> mem s' a = mem s a))"
proof (intro conjI impI allI)
  show "run st out inp min_v max_v 0 s = Inr s"
    by (rule run_zero)
next
  assume "aligned_for st out inp"
  then show "\<exists>s'. run st out inp min_v max_v n s = Inr s'"
    by (simp add: run_count)
next
  fix s'
  assume "run st out inp min_v max_v n s = Inr s'"
  then have s': "s' = run_by_count st out inp min_v max_v (unat n) s"
    by (rule run_returns)
  show "\<exists>evs. trace s' = trace s @ evs \<and>
             (\<forall>a. Wr a \<in> set evs \<longrightarrow> out \<le> a \<and> a < out + unat n) \<and>
             (\<forall>a. Rd a \<in> set evs \<longrightarrow> inp \<le> a \<and> a < inp + unat n)"
    unfolding s' by (rule run_by_count_trace)
next
  fix s' a
  assume "run st out inp min_v max_v n s = Inr s'"
  then have s': "s' = run_by_count st out inp min_v max_v (unat n) s"
    by (rule run_returns)
  assume "a < out \<or> out + unat n \<le> a"
  then show "mem s' a = mem s a"
    unfolding s' by (rule run_by_count_frame)
qed

theorem accesses_stay_below_num_points_witness:
  "run A_avx2 8 0 0xBFC00000 0x3FC00000 0 doc_example = Inr doc_example \<and>
   (\<exists>s'. run A_avx2 8 0 0xBFC00000 0x3FC00000 4 doc_example = Inr s' \<and>
         mem s' 12 = mem doc_example 12 \<and> mem s' 7 = mem doc_example 7)"
proof -
  note inst = accesses_stay_below_num_points
               [of A_avx2 8 0 "0xBFC00000" "0x3FC00000" doc_example 4]
  have al: "aligned_for A_avx2 8 0" by simp
  from inst have zero: "run A_avx2 8 0 0xBFC00000 0x3FC00000 0 doc_example = Inr doc_example"
    by blast
  from inst al obtain s' where s': "run A_avx2 8 0 0xBFC00000 0x3FC00000 4 doc_example = Inr s'"
    by blast
  with inst have "\<forall>a. a < 8 \<or> 8 + unat (4 :: 32 word) \<le> a \<longrightarrow> mem s' a = mem doc_example a"
    by blast
  with zero s' show ?thesis
    by (simp del: run.simps)
qed

text \<open>
  C10.  Under \<open>min <= max\<close> the scalar clamp is idempotent, NaN included: clamping the
  output of the scalar strategy once more, in place, with the same bounds changes no
  element.
\<close>

theorem clamp_idempotent:
  assumes "fle min_v max_v" and "read_before_write out inp (unat n)" and "i < unat n"
  shows "mem (volk_32f_s32f_x2_clamp_32f_generic out out min_v max_v n
                (volk_32f_s32f_x2_clamp_32f_generic out inp min_v max_v n s)) (out + i)
         = mem (volk_32f_s32f_x2_clamp_32f_generic out inp min_v max_v n s) (out + i)"
proof -
  let ?s1 = "volk_32f_s32f_x2_clamp_32f_generic out inp min_v max_v n s"
  let ?x = "mem s (inp + i)"
  have same: "read_before_write out out (unat n)"
    by (simp add: read_before_write_def)
  have first: "mem ?s1 (out + i) = clamp_ref ?x min_v max_v"
    unfolding generic_count using assms(2,3) by (rule scalar_iter_mem)
  have "mem (volk_32f_s32f_x2_clamp_32f_generic out out min_v max_v n ?s1) (out + i)
        = clamp_ref (mem ?s1 (out + i)) min_v max_v"
    unfolding generic_count [of out out] using same assms(3) by (rule scalar_iter_mem)
  also have "\<dots> = clamp_ref (clamp_ref ?x min_v max_v) min_v max_v"
    by (simp only: first)
  also have "\<dots> = clamp_ref ?x min_v max_v"
    using fle_not_flt [OF assms(1)]
    by (auto simp add: clamp_ref_def fgt_def flt_irrefl)
  finally show ?thesis
    by (simp only: first)
qed

theorem clamp_idempotent_witness:
  "fle 0xBFC00000 0x3FC00000 \<and> read_before_write 4 0 (unat (4 :: 32 word)) \<and>
   0 < unat (4 :: 32 word) \<and>
   mem (volk_32f_s32f_x2_clamp_32f_generic 4 4 0xBFC00000 0x3FC00000 4
          (volk_32f_s32f_x2_clamp_32f_generic 4 0 0xBFC00000 0x3FC00000 4 doc_example)) (4 + 0)
   = mem (volk_32f_s32f_x2_clamp_32f_generic 4 0 0xBFC00000 0x3FC00000 4 doc_example) (4 + 0)"
  using clamp_idempotent [of "0xBFC00000" "0x3FC00000" 4 0 4 0 doc_example]
  by (simp add: read_before_write_def float_defs)

end
